theory Spec2Isabelle
  imports Main "HOL-Library.Word" "HOL-Library.Monad_Syntax"
begin

unbundle bit_operations_syntax

section \<open>The central-directory reader of libzipfile (centraldir.c)\<close>

text \<open>
  The archive is a byte buffer. A pointer into it (\<^verbatim>\<open>file->buf + k\<close>) is modelled by
  its offset \<open>k\<close> from \<^verbatim>\<open>file->buf\<close>, an \<open>int\<close>, so that \<^verbatim>\<open>p--\<close> below the start
  of the buffer and offsets past its end can be written as the code writes them;
  \<^verbatim>\<open>file->bufsize\<close> is the length of the buffer and \<^verbatim>\<open>bufLimit\<close> is that length as an
  offset. Pointers, \<^verbatim>\<open>size_t\<close>, \<^verbatim>\<open>ssize_t\<close> and \<^verbatim>\<open>unsigned long\<close> are taken to be wider
  than 32 bits, as on a 64-bit host: no offset or length that the code computes from a
  32-bit field and the buffer size leaves their range, so they are unbounded integers.
  \<^verbatim>\<open>unsigned short\<close> values are 16-bit words and \<^verbatim>\<open>unsigned int\<close> values 32-bit words;
  the only places where a value is cut to 32 bits are \<^verbatim>\<open>dataOffset\<close> and the casts
  \<^verbatim>\<open>(unsigned int) (bufLimit - entry->data)\<close>. The declarations of \<^verbatim>\<open>Zipfile\<close> and
  \<^verbatim>\<open>Zipentry\<close> are in private.h; their fields are given here the widths of the
  format's fields that are stored in them.
\<close>

type_synonym byte = "8 word"
type_synonym u16 = "16 word"
type_synonym u32 = "32 word"

definition CD_SIGNATURE :: u32 where "CD_SIGNATURE = 0x06054b50"
definition EOCD_LEN :: int where "EOCD_LEN = 22"
definition MAX_COMMENT_LEN :: int where "MAX_COMMENT_LEN = 65535"
definition MAX_EOCD_SEARCH :: int where "MAX_EOCD_SEARCH = MAX_COMMENT_LEN + EOCD_LEN"
definition ENTRY_SIGNATURE :: u32 where "ENTRY_SIGNATURE = 0x02014b50"
definition ENTRY_LEN :: int where "ENTRY_LEN = 46"
definition LFH_SIZE :: u32 where "LFH_SIZE = 30"
definition kCompressionStored :: u16 where "kCompressionStored = 0x0"
definition kCompressionDeflate :: u16 where "kCompressionDeflate = 0x8"

text \<open>
  The code reports every failure by a message on stderr and a non-zero return value.
  Each failing return is given the error kind of the step it belongs to:
  \<^item> \<open>NotAZip\<close>: "Length is ... -- too small", "EOCD not found, not Zip";
  \<^item> \<open>Truncated\<close>: "Zip EOCD: expected >= ...", "EOCD(..) + comment(..) exceeds len",
    "cde entry not large enough", "... for file name", "... for extra field",
    "... for file comment";
  \<^item> \<open>BadSignature\<close>: "Whoops: didn't find expected signature";
  \<^item> \<open>MissingFileName\<close>: "cde entry does not contain a file name.";
  \<^item> \<open>InvalidLocalHeaderOffset\<close>: "Invalid local header offset for entry.";
  \<^item> \<open>InvalidDataOffset\<close>: "Invalid data offset for entry.";
  \<^item> \<open>InvalidDeclaredSize\<close>: "Invalid uncompressed size for stored entry.",
    "Invalid uncompressed size for deflated entry.";
  \<^item> \<open>SpanningUnsupported\<close>: "Archive spanning not supported".

  \<open>OutOfBounds\<close> is no return value of the code: it marks an execution that reads a byte
  outside \<^verbatim>\<open>[file->buf, file->buf + file->bufsize)\<close>, where the C program has no defined
  behaviour.
\<close>

datatype error =
    NotAZip
  | Truncated
  | BadSignature
  | MissingFileName
  | InvalidLocalHeaderOffset
  | InvalidDataOffset
  | InvalidDeclaredSize
  | SpanningUnsupported
  | OutOfBounds

record Zipentry =
  fileNameLength :: u16
  fileName :: int
  compressionMethod :: u16
  uncompressedSize :: u32
  compressedSize :: u32
  data :: int

record Zipfile =
  buf :: "byte list"
  disknum :: u16
  diskWithCentralDir :: u16
  entryCount :: u16
  totalEntryCount :: u16
  centralDirSize :: u32
  centralDirOffest :: u32
  commentLen :: u16
  comment :: "int option"
  entries :: "Zipentry list"

subsection \<open>Reading bytes and little-endian fields\<close>

definition read_byte :: "byte list \<Rightarrow> int \<Rightarrow> byte option" where
  "read_byte b i = (if 0 \<le> i \<and> i < int (length b) then Some (b ! nat i) else None)"

definition read_le_int :: "byte list \<Rightarrow> int \<Rightarrow> u32 option" where
  "read_le_int b i = do {
     b0 \<leftarrow> read_byte b i;
     b1 \<leftarrow> read_byte b (i + 1);
     b2 \<leftarrow> read_byte b (i + 2);
     b3 \<leftarrow> read_byte b (i + 3);
     Some (ucast b0 OR push_bit 8 (ucast b1) OR push_bit 16 (ucast b2) OR push_bit 24 (ucast b3))
   }"

definition read_le_short :: "byte list \<Rightarrow> int \<Rightarrow> u32 option" where
  "read_le_short b i = do {
     b0 \<leftarrow> read_byte b i;
     b1 \<leftarrow> read_byte b (i + 1);
     Some (ucast b0 OR push_bit 8 (ucast b1))
   }"

subsection \<open>read_central_dir_values\<close>

definition read_central_dir_values ::
  "Zipfile \<Rightarrow> int \<Rightarrow> int \<Rightarrow> error option \<times> Zipfile" where
  "read_central_dir_values file eocd len =
     (if len < EOCD_LEN then (Some Truncated, file)
      else
        case do {
            dn \<leftarrow> read_le_short (buf file) (eocd + 0x04);
            dw \<leftarrow> read_le_short (buf file) (eocd + 0x06);
            ec \<leftarrow> read_le_short (buf file) (eocd + 0x08);
            tec \<leftarrow> read_le_short (buf file) (eocd + 0x0a);
            cds \<leftarrow> read_le_int (buf file) (eocd + 0x0c);
            cdo \<leftarrow> read_le_int (buf file) (eocd + 0x10);
            cl \<leftarrow> read_le_short (buf file) (eocd + 0x14);
            Some (dn, dw, ec, tec, cds, cdo, cl)
          } of
          None \<Rightarrow> (Some OutOfBounds, file)
        | Some (dn, dw, ec, tec, cds, cdo, cl) \<Rightarrow>
            let file1 = file\<lparr>disknum := ucast dn, diskWithCentralDir := ucast dw,
                   entryCount := ucast ec, totalEntryCount := ucast tec,
                   centralDirSize := cds, centralDirOffest := cdo, commentLen := ucast cl\<rparr>
            in if commentLen file1 > 0 then
                 (if EOCD_LEN + uint (commentLen file1) > len then (Some Truncated, file1)
                  else (None, file1\<lparr>comment := Some (eocd + EOCD_LEN)\<rparr>))
               else (None, file1))"

subsection \<open>read_central_directory_entry\<close>

text \<open>
  The entry decoder gets the cursor \<^verbatim>\<open>*buf\<close> (an offset) and \<^verbatim>\<open>*len\<close> and returns, when
  it returns 0, the filled entry and the new values of \<^verbatim>\<open>*buf\<close> and \<^verbatim>\<open>*len\<close>. The caller
  gives up at any other return value, so a failing call returns the error only.
\<close>

definition read_central_directory_entry ::
  "Zipfile \<Rightarrow> int \<Rightarrow> int \<Rightarrow> error + (Zipentry \<times> int \<times> int)" where
  "read_central_directory_entry file p0 len0 =
     (let bufLimit = int (length (buf file)) in
      if len0 < ENTRY_LEN then Inl Truncated
      else
       (case read_le_int (buf file) (p0 + 0x00) of
          None \<Rightarrow> Inl OutOfBounds
        | Some sg \<Rightarrow>
           if sg \<noteq> ENTRY_SIGNATURE then Inl BadSignature
           else
            (case do {
                 cm \<leftarrow> read_le_short (buf file) (p0 + 0x0a);
                 cs \<leftarrow> read_le_int (buf file) (p0 + 0x14);
                 us \<leftarrow> read_le_int (buf file) (p0 + 0x18);
                 fnl \<leftarrow> read_le_short (buf file) (p0 + 0x1c);
                 efl \<leftarrow> read_le_short (buf file) (p0 + 0x1e);
                 fcl \<leftarrow> read_le_short (buf file) (p0 + 0x20);
                 lhro \<leftarrow> read_le_int (buf file) (p0 + 0x2a);
                 Some (cm, cs, us, fnl, efl, fcl, lhro)
               } of
               None \<Rightarrow> Inl OutOfBounds
             | Some (cm, cs, us, fnl, efl, fcl, lhro) \<Rightarrow>
                (let compressionMethod = (ucast cm :: u16);
                     fileNameLength = (ucast fnl :: u16);
                     extraFieldLength = (ucast efl :: u16);
                     fileCommentLength = (ucast fcl :: u16);
                     localHeaderRelOffset = lhro;
                     p1 = p0 + ENTRY_LEN;
                     remaining1 = len0 - ENTRY_LEN
                 in
                 if fileNameLength = 0 then Inl MissingFileName
                 else if uint fileNameLength > remaining1 then Inl Truncated
                 else
                 (let p2 = p1 + uint fileNameLength;
                      remaining2 = remaining1 - uint fileNameLength
                  in
                  if uint extraFieldLength > remaining2 then Inl Truncated
                  else
                  (let p3 = p2 + uint extraFieldLength;
                       remaining3 = remaining2 - uint extraFieldLength
                   in
                   if uint fileCommentLength > remaining3 then Inl Truncated
                   else
                   (let p4 = p3 + uint fileCommentLength;
                        remaining4 = remaining3 - uint fileCommentLength;
                        lp = uint localHeaderRelOffset
                    in
                    if lp \<ge> bufLimit then Inl InvalidLocalHeaderOffset
                    else
                     (case read_le_short (buf file) (lp + 0x1c) of
                        None \<Rightarrow> Inl OutOfBounds
                      | Some lefl \<Rightarrow>
                         (let localExtraFieldLength = (ucast lefl :: u16);
                              dataOffset = (localHeaderRelOffset + LFH_SIZE
                                 + ucast fileNameLength + ucast localExtraFieldLength :: u32);
                              d = uint dataOffset
                          in
                          if d < 0 \<or> d \<ge> bufLimit then Inl InvalidDataOffset
                          else if compressionMethod = kCompressionStored
                                    \<and> us > (word_of_int (bufLimit - d) :: u32)
                            then Inl InvalidDeclaredSize
                          else if compressionMethod = kCompressionDeflate
                                    \<and> cs > (word_of_int (bufLimit - d) :: u32)
                            then Inl InvalidDeclaredSize
                          else Inr (\<lparr>fileNameLength = fileNameLength, fileName = p1,
                                      compressionMethod = compressionMethod,
                                      uncompressedSize = us, compressedSize = cs, data = d\<rparr>,
                                    p4, remaining4))))))))))"

subsection \<open>read_central_dir\<close>

text \<open>
  The test of the backward scan at one position: \<^verbatim>\<open>*p == 0x50 && read_le_int(p) ==
  CD_SIGNATURE\<close>, where the second operand is evaluated only when the first holds.
\<close>

definition eocd_here :: "byte list \<Rightarrow> int \<Rightarrow> bool option" where
  "eocd_here b p =
     (case read_byte b p of
        None \<Rightarrow> None
      | Some c \<Rightarrow>
          if c = 0x50 then
            (case read_le_int b p of None \<Rightarrow> None | Some v \<Rightarrow> Some (v = CD_SIGNATURE))
          else Some False)"

text \<open>The \<^verbatim>\<open>while (p >= start)\<close> loop; its result is the value of \<^verbatim>\<open>p\<close> when it is left.\<close>

function eocd_scan :: "byte list \<Rightarrow> int \<Rightarrow> int \<Rightarrow> error + int" where
  "eocd_scan b start p =
     (if p \<ge> start then
        (case eocd_here b p of
           None \<Rightarrow> Inl OutOfBounds
         | Some True \<Rightarrow> Inr p
         | Some False \<Rightarrow> eocd_scan b start (p - 1))
      else Inr p)"
  by pat_completeness auto
termination
  by (relation "measure (\<lambda>(b, start, p). nat (p - start + 1))") auto

declare eocd_scan.simps [simp del]

text \<open>Lines 210 to 233 of read_central_dir: the search for the end-of-central-dir magic.\<close>

definition find_eocd :: "byte list \<Rightarrow> error + int" where
  "find_eocd b =
     (let bufsize = int (length b) in
      if bufsize < EOCD_LEN then Inl NotAZip
      else
        let start = (if bufsize > MAX_EOCD_SEARCH then bufsize - MAX_EOCD_SEARCH else 0) in
        case eocd_scan b start (bufsize - 4) of
          Inl e \<Rightarrow> Inl e
        | Inr p \<Rightarrow> if p < start then Inl NotAZip else Inr p)"

text \<open>The \<^verbatim>\<open>for (i=0; i < file->totalEntryCount; i++)\<close> loop with its cursor.\<close>

function read_entries :: "Zipfile \<Rightarrow> int \<Rightarrow> int \<Rightarrow> int \<Rightarrow> error option \<times> Zipfile" where
  "read_entries file p len i =
     (if i < uint (totalEntryCount file) then
        (case read_central_directory_entry file p len of
           Inl e \<Rightarrow> (Some e, file)
         | Inr (entry, p', len') \<Rightarrow>
             read_entries (file\<lparr>entries := entry # entries file\<rparr>) p' len' (i + 1))
      else (None, file))"
  by pat_completeness auto
termination
  by (relation "measure (\<lambda>(file, p, len, i). nat (uint (totalEntryCount file) - i))") auto

declare read_entries.simps [simp del]

definition read_central_dir :: "Zipfile \<Rightarrow> error option \<times> Zipfile" where
  "read_central_dir file =
     (let bufsize = int (length (buf file)) in
      case find_eocd (buf file) of
        Inl e \<Rightarrow> (Some e, file)
      | Inr eocd \<Rightarrow>
          (case read_central_dir_values file eocd (bufsize - eocd) of
             (Some e, file1) \<Rightarrow> (Some e, file1)
           | (None, file1) \<Rightarrow>
               if disknum file1 \<noteq> 0
                    \<or> diskWithCentralDir file1 \<noteq> 0
                    \<or> entryCount file1 \<noteq> totalEntryCount file1
               then (Some SpanningUnsupported, file1)
               else
                 let p = uint (centralDirOffest file1);
                     len = bufsize - p
                 in read_entries file1 p len 0))"

text \<open>The descriptor as the caller hands it over: all fields zero, no entries.\<close>

definition zeroed_zipfile :: "byte list \<Rightarrow> Zipfile" where
  "zeroed_zipfile b =
     \<lparr>buf = b, disknum = 0, diskWithCentralDir = 0, entryCount = 0, totalEntryCount = 0,
      centralDirSize = 0, centralDirOffest = 0, commentLen = 0, comment = None,
      entries = []\<rparr>"

subsection \<open>Notions used to state the properties\<close>

text \<open>
  The signature of the end-of-central-directory record stands at offset \<open>p\<close>: the four
  bytes there are in the buffer and read, little-endian, as 0x06054b50.
\<close>

definition sig_at :: "byte list \<Rightarrow> int \<Rightarrow> bool" where
  "sig_at b p \<longleftrightarrow> read_le_int b p = Some CD_SIGNATURE"

text \<open>The first offset of the tail window of 65535 + 22 bytes.\<close>

definition window_start :: "byte list \<Rightarrow> int" where
  "window_start b =
     (if int (length b) > 65535 + 22 then int (length b) - (65535 + 22) else 0)"

text \<open>
  The backward scan as the specification words it, comparing the four bytes at each
  position with the signature and without the test of the first byte.
\<close>

definition signature_here :: "byte list \<Rightarrow> int \<Rightarrow> bool option" where
  "signature_here b p =
     (case read_le_int b p of None \<Rightarrow> None | Some v \<Rightarrow> Some (v = CD_SIGNATURE))"

function eocd_scan_nocheck :: "byte list \<Rightarrow> int \<Rightarrow> int \<Rightarrow> error + int" where
  "eocd_scan_nocheck b start p =
     (if p \<ge> start then
        (case signature_here b p of
           None \<Rightarrow> Inl OutOfBounds
         | Some True \<Rightarrow> Inr p
         | Some False \<Rightarrow> eocd_scan_nocheck b start (p - 1))
      else Inr p)"
  by pat_completeness auto
termination
  by (relation "measure (\<lambda>(b, start, p). nat (p - start + 1))") auto

declare eocd_scan_nocheck.simps [simp del]

definition find_eocd_nocheck :: "byte list \<Rightarrow> error + int" where
  "find_eocd_nocheck b =
     (let bufsize = int (length b) in
      if bufsize < EOCD_LEN then Inl NotAZip
      else
        let start = (if bufsize > MAX_EOCD_SEARCH then bufsize - MAX_EOCD_SEARCH else 0) in
        case eocd_scan_nocheck b start (bufsize - 4) of
          Inl e \<Rightarrow> Inl e
        | Inr p \<Rightarrow> if p < start then Inl NotAZip else Inr p)"

text \<open>
  How often the body of the \<^verbatim>\<open>while (p >= start)\<close> loop is run, that is, how many
  positions the scan visits: the recursion of \<open>eocd_scan\<close> with a counter.
\<close>

function eocd_scan_steps :: "byte list \<Rightarrow> int \<Rightarrow> int \<Rightarrow> nat" where
  "eocd_scan_steps b start p =
     (if p \<ge> start then
        (case eocd_here b p of
           None \<Rightarrow> 1
         | Some True \<Rightarrow> 1
         | Some False \<Rightarrow> Suc (eocd_scan_steps b start (p - 1)))
      else 0)"
  by pat_completeness auto
termination
  by (relation "measure (\<lambda>(b, start, p). nat (p - start + 1))") auto

declare eocd_scan_steps.simps [simp del]

text \<open>
  How often the body of the \<^verbatim>\<open>for\<close> loop over the entries is run: the recursion of
  \<open>read_entries\<close> with a counter. An iteration in which the entry decoder fails is
  counted, and is the last one.
\<close>

function read_entries_iterations :: "Zipfile \<Rightarrow> int \<Rightarrow> int \<Rightarrow> int \<Rightarrow> nat" where
  "read_entries_iterations file p len i =
     (if i < uint (totalEntryCount file) then
        (case read_central_directory_entry file p len of
           Inl e \<Rightarrow> 1
         | Inr (entry, p', len') \<Rightarrow>
             Suc (read_entries_iterations (file\<lparr>entries := entry # entries file\<rparr>) p' len' (i + 1)))
      else 0)"
  by pat_completeness auto
termination
  by (relation "measure (\<lambda>(file, p, len, i). nat (uint (totalEntryCount file) - i))") auto

declare read_entries_iterations.simps [simp del]

text \<open>
  The records of the central directory in the order in which they are stored: \<open>n\<close>
  consecutive records from the cursor on, each decoded by the entry decoder, up to the
  first one that fails. The result is the list of the entries decoded, first record
  first, and the error of the failing record, if any.
\<close>

fun decode_forward :: "Zipfile \<Rightarrow> int \<Rightarrow> int \<Rightarrow> nat \<Rightarrow> Zipentry list \<times> error option" where
  "decode_forward file p len 0 = ([], None)"
| "decode_forward file p len (Suc n) =
     (case read_central_directory_entry file p len of
        Inl e \<Rightarrow> ([], Some e)
      | Inr (entry, p', len') \<Rightarrow>
          (case decode_forward file p' len' n of (es, r) \<Rightarrow> (entry # es, r)))"

text \<open>
  The value of the little-endian 16-bit and 32-bit field at an offset, as a number.
\<close>

definition le16 :: "byte list \<Rightarrow> int \<Rightarrow> int" where
  "le16 b i = uint (b ! nat i) + 256 * uint (b ! nat (i + 1))"


definition le32 :: "byte list \<Rightarrow> int \<Rightarrow> int" where
  "le32 b i = uint (b ! nat i) + 256 * uint (b ! nat (i + 1))
     + 65536 * uint (b ! nat (i + 2)) + 16777216 * uint (b ! nat (i + 3))"


text \<open>
  The layout of a well-formed archive, after the table of the format: the members (local
  header and data) come first, then the central directory, then the
  end-of-central-directory record, which is followed by its comment only.

  For the central-directory record at offset \<open>q\<close>: the offset just behind it (the fixed
  46 bytes, the file name, the extra field and the file comment), and the offset of the
  member's data (behind the fixed 30 bytes of the local header, the file name and the
  extra field of the local header).
\<close>

definition cd_record_next :: "byte list \<Rightarrow> int \<Rightarrow> int" where
  "cd_record_next b q = q + 46 + le16 b (q + 28) + le16 b (q + 30) + le16 b (q + 32)"


definition cd_data_start :: "byte list \<Rightarrow> int \<Rightarrow> int" where
  "cd_data_start b q =
     le32 b (q + 42) + 30 + le16 b (q + 28) + le16 b (le32 b (q + 42) + 28)"


text \<open>
  The record at \<open>q\<close> lies before \<open>e\<close>, the offset of the end-of-central-directory record:
  it has the signature 0x02014b50 and a file name that is not empty; the local header
  and the data of the member, of the compressed size, lie before \<open>cdo\<close>, the offset of the
  central directory; a stored member has equal sizes.
\<close>

definition cd_record_ok :: "byte list \<Rightarrow> int \<Rightarrow> int \<Rightarrow> int \<Rightarrow> bool" where
  "cd_record_ok b cdo e q \<longleftrightarrow>
     0 \<le> q \<and> q + 46 \<le> e
     \<and> le32 b q = 0x02014b50
     \<and> 0 < le16 b (q + 28)
     \<and> cd_record_next b q \<le> e
     \<and> le32 b (q + 42) + 30 \<le> cdo
     \<and> cd_data_start b q + le32 b (q + 20) \<le> cdo
     \<and> (le16 b (q + 10) = 0 \<longrightarrow> le32 b (q + 24) = le32 b (q + 20))"


text \<open>The records at the offsets \<open>ps\<close> follow one another from \<open>p\<close> on; where they end.\<close>

fun cd_records_ok :: "byte list \<Rightarrow> int \<Rightarrow> int \<Rightarrow> int \<Rightarrow> int list \<Rightarrow> bool" where
  "cd_records_ok b cdo e p [] = True"
| "cd_records_ok b cdo e p (q # qs) =
     (q = p \<and> cd_record_ok b cdo e q \<and> cd_records_ok b cdo e (cd_record_next b q) qs)"


fun cd_records_end :: "byte list \<Rightarrow> int \<Rightarrow> int list \<Rightarrow> int" where
  "cd_records_end b p [] = p"
| "cd_records_end b p (q # qs) = cd_records_end b (cd_record_next b q) qs"


text \<open>
  The archive \<open>b\<close> with the end-of-central-directory record at \<open>e\<close> and the
  central-directory records at \<open>ps\<close>, in stored order: the archive is shorter than 4 GiB
  (offsets are 32-bit fields); the record at \<open>e\<close> has the signature 0x06054b50 and ends,
  with the comment it declares, at the end of the buffer; both disk numbers are 0 and both
  entry counts are the number of records; the central directory, of the declared offset
  and size, consists of these records and lies before \<open>e\<close>.
\<close>

definition well_formed_archive :: "byte list \<Rightarrow> int \<Rightarrow> int list \<Rightarrow> bool" where
  "well_formed_archive b e ps \<longleftrightarrow>
     int (length b) < 2 ^ 32
     \<and> 0 \<le> e \<and> e + 22 \<le> int (length b)
     \<and> le32 b e = 0x06054b50
     \<and> e + 22 + le16 b (e + 20) = int (length b)
     \<and> le16 b (e + 4) = 0 \<and> le16 b (e + 6) = 0
     \<and> le16 b (e + 8) = int (length ps) \<and> le16 b (e + 10) = int (length ps)
     \<and> le32 b (e + 16) + le32 b (e + 12) \<le> e
     \<and> cd_records_ok b (le32 b (e + 16)) e (le32 b (e + 16)) ps
     \<and> cd_records_end b (le32 b (e + 16)) ps = le32 b (e + 16) + le32 b (e + 12)"


text \<open>The entry descriptor that the record at \<open>q\<close> stands for.\<close>

definition cd_entry :: "byte list \<Rightarrow> int \<Rightarrow> Zipentry" where
  "cd_entry b q =
     \<lparr>fileNameLength = word_of_int (le16 b (q + 28)), fileName = q + 46,
      compressionMethod = word_of_int (le16 b (q + 10)),
      uncompressedSize = word_of_int (le32 b (q + 24)),
      compressedSize = word_of_int (le32 b (q + 20)),
      data = cd_data_start b q\<rparr>"


subsection \<open>Archives used as examples\<close>

text \<open>
  Two members, a.txt (stored, "hello", local header at 0, data at 35) and b.txt
  (deflated, 10 bytes, local header at 40, data at 75); central directory at 85,
  end-of-central-directory record at 187.
\<close>

definition two_entry_zip :: "byte list" where
  "two_entry_zip =
    [0x50, 0x4b, 0x03, 0x04, 0x14, 0x00, 0x00, 0x00, 0x00, 0x00, 0x00, 0x00, 0x00, 0x00, 0x00, 0x00,
     0x00, 0x00, 0x05, 0x00, 0x00, 0x00, 0x05, 0x00, 0x00, 0x00, 0x05, 0x00, 0x00, 0x00, 0x61, 0x2e,
     0x74, 0x78, 0x74, 0x68, 0x65, 0x6c, 0x6c, 0x6f, 0x50, 0x4b, 0x03, 0x04, 0x14, 0x00, 0x00, 0x00,
     0x08, 0x00, 0x00, 0x00, 0x00, 0x00, 0x00, 0x00, 0x00, 0x00, 0x0a, 0x00, 0x00, 0x00, 0x11, 0x00,
     0x00, 0x00, 0x05, 0x00, 0x00, 0x00, 0x62, 0x2e, 0x74, 0x78, 0x74, 0xcb, 0x48, 0xcd, 0xc9, 0xc9,
     0x57, 0xc8, 0x40, 0x90, 0x00, 0x50, 0x4b, 0x01, 0x02, 0x14, 0x00, 0x14, 0x00, 0x00, 0x00, 0x00,
     0x00, 0x00, 0x00, 0x00, 0x00, 0x00, 0x00, 0x00, 0x00, 0x05, 0x00, 0x00, 0x00, 0x05, 0x00, 0x00,
     0x00, 0x05, 0x00, 0x00, 0x00, 0x00, 0x00, 0x00, 0x00, 0x00, 0x00, 0x00, 0x00, 0x00, 0x00, 0x00,
     0x00, 0x00, 0x00, 0x61, 0x2e, 0x74, 0x78, 0x74, 0x50, 0x4b, 0x01, 0x02, 0x14, 0x00, 0x14, 0x00,
     0x00, 0x00, 0x08, 0x00, 0x00, 0x00, 0x00, 0x00, 0x00, 0x00, 0x00, 0x00, 0x0a, 0x00, 0x00, 0x00,
     0x11, 0x00, 0x00, 0x00, 0x05, 0x00, 0x00, 0x00, 0x00, 0x00, 0x00, 0x00, 0x00, 0x00, 0x00, 0x00,
     0x00, 0x00, 0x28, 0x00, 0x00, 0x00, 0x62, 0x2e, 0x74, 0x78, 0x74, 0x50, 0x4b, 0x05, 0x06, 0x00,
     0x00, 0x00, 0x00, 0x02, 0x00, 0x02, 0x00, 0x66, 0x00, 0x00, 0x00, 0x55, 0x00, 0x00, 0x00, 0x00,
     0x00]"

text \<open>
  One central-directory record at 0 whose local header offset is 60, followed by the
  end-of-central-directory record at 47; 69 bytes.
\<close>

definition short_tail_zip :: "byte list" where
  "short_tail_zip =
    [0x50, 0x4b, 0x01, 0x02, 0x14, 0x00, 0x14, 0x00, 0x00, 0x00, 0x00, 0x00, 0x00, 0x00, 0x00, 0x00,
     0x00, 0x00, 0x00, 0x00, 0x00, 0x00, 0x00, 0x00, 0x00, 0x00, 0x00, 0x00, 0x01, 0x00, 0x00, 0x00,
     0x00, 0x00, 0x00, 0x00, 0x00, 0x00, 0x00, 0x00, 0x00, 0x00, 0x3c, 0x00, 0x00, 0x00, 0x61, 0x50,
     0x4b, 0x05, 0x06, 0x00, 0x00, 0x00, 0x00, 0x01, 0x00, 0x01, 0x00, 0x2f, 0x00, 0x00, 0x00, 0x00,
     0x00, 0x00, 0x00, 0x00, 0x00]"

text \<open>
  One central-directory record at 0 (local header offset 0), followed by an
  end-of-central-directory record at 47 that declares two entries; 69 bytes.
\<close>

definition second_entry_missing_zip :: "byte list" where
  "second_entry_missing_zip =
    [0x50, 0x4b, 0x01, 0x02, 0x14, 0x00, 0x14, 0x00, 0x00, 0x00, 0x00, 0x00, 0x00, 0x00, 0x00, 0x00,
     0x00, 0x00, 0x00, 0x00, 0x00, 0x00, 0x00, 0x00, 0x00, 0x00, 0x00, 0x00, 0x01, 0x00, 0x00, 0x00,
     0x00, 0x00, 0x00, 0x00, 0x00, 0x00, 0x00, 0x00, 0x00, 0x00, 0x00, 0x00, 0x00, 0x00, 0x61, 0x50,
     0x4b, 0x05, 0x06, 0x00, 0x00, 0x00, 0x00, 0x02, 0x00, 0x02, 0x00, 0x2f, 0x00, 0x00, 0x00, 0x00,
     0x00, 0x00, 0x00, 0x00, 0x00]"

text \<open>An end-of-central-directory record with no entries and no comment, and one more byte.\<close>

definition trailing_byte_zip :: "byte list" where
  "trailing_byte_zip =
    [0x50, 0x4b, 0x05, 0x06, 0x00, 0x00, 0x00, 0x00, 0x00, 0x00, 0x00, 0x00, 0x00, 0x00, 0x00, 0x00,
     0x00, 0x00, 0x00, 0x00, 0x00, 0x00, 0x00]"

text \<open>
  One member with compression method 99 and both sizes 0xffffffff: local header at 0,
  data at 31, central directory at 31, end-of-central-directory record at 78.
\<close>

definition other_method_zip :: "byte list" where
  "other_method_zip =
    [0x50, 0x4b, 0x03, 0x04, 0x14, 0x00, 0x00, 0x00, 0x63, 0x00, 0x00, 0x00, 0x00, 0x00, 0x00, 0x00,
     0x00, 0x00, 0xff, 0xff, 0xff, 0xff, 0xff, 0xff, 0xff, 0xff, 0x01, 0x00, 0x00, 0x00, 0x61, 0x50,
     0x4b, 0x01, 0x02, 0x14, 0x00, 0x14, 0x00, 0x00, 0x00, 0x63, 0x00, 0x00, 0x00, 0x00, 0x00, 0x00,
     0x00, 0x00, 0x00, 0xff, 0xff, 0xff, 0xff, 0xff, 0xff, 0xff, 0xff, 0x01, 0x00, 0x00, 0x00, 0x00,
     0x00, 0x00, 0x00, 0x00, 0x00, 0x00, 0x00, 0x00, 0x00, 0x00, 0x00, 0x00, 0x00, 0x61, 0x50, 0x4b,
     0x05, 0x06, 0x00, 0x00, 0x00, 0x00, 0x01, 0x00, 0x01, 0x00, 0x2f, 0x00, 0x00, 0x00, 0x1f, 0x00,
     0x00, 0x00, 0x00, 0x00]"

text \<open>End-of-central-directory records: disk number 1; one entry on this disk of two.\<close>

definition disk1_zip :: "byte list" where
  "disk1_zip =
    [0x50, 0x4b, 0x05, 0x06, 0x01, 0x00, 0x00, 0x00, 0x00, 0x00, 0x00, 0x00, 0x00, 0x00, 0x00, 0x00,
     0x00, 0x00, 0x00, 0x00, 0x00, 0x00]"

definition count_mismatch_zip :: "byte list" where
  "count_mismatch_zip =
    [0x50, 0x4b, 0x05, 0x06, 0x00, 0x00, 0x00, 0x00, 0x01, 0x00, 0x02, 0x00, 0x00, 0x00, 0x00, 0x00,
     0x00, 0x00, 0x00, 0x00, 0x00, 0x00]"

text \<open>
  An end-of-central-directory record alone that declares two entries and the central
  directory at offset 0; 22 bytes.
\<close>

definition two_declared_zip :: "byte list" where
  "two_declared_zip =
    [0x50, 0x4b, 0x05, 0x06, 0x00, 0x00, 0x00, 0x00, 0x02, 0x00, 0x02, 0x00, 0x00, 0x00, 0x00, 0x00,
     0x00, 0x00, 0x00, 0x00, 0x00, 0x00]"

text \<open>
  An empty archive whose comment is the four bytes of the end-of-central-directory
  signature.
\<close>

definition sig_in_comment_zip :: "byte list" where
  "sig_in_comment_zip =
    [0x50, 0x4b, 0x05, 0x06, 0x00, 0x00, 0x00, 0x00, 0x00, 0x00, 0x00, 0x00, 0x00, 0x00, 0x00, 0x00,
     0x00, 0x00, 0x00, 0x00, 0x04, 0x00, 0x50, 0x4b, 0x05, 0x06]"

text \<open>
  A buffer of 2^32 - 1 bytes: a central-directory record at 0 with a file name of one
  byte and the local header offset 0xffffffe1 = 2^32 - 31, then zero bytes, then the
  end-of-central-directory record at 2^32 - 23, whose last two bytes (the comment
  length, 0) are the bytes at offset 0x1c of that local header.
\<close>

definition wrap_head :: "byte list" where
  "wrap_head =
    [0x50, 0x4b, 0x01, 0x02, 0x14, 0x00, 0x14, 0x00, 0x00, 0x00, 0x00, 0x00, 0x00, 0x00, 0x00, 0x00,
     0x00, 0x00, 0x00, 0x00, 0x00, 0x00, 0x00, 0x00, 0x00, 0x00, 0x00, 0x00, 0x01, 0x00, 0x00, 0x00,
     0x00, 0x00, 0x00, 0x00, 0x00, 0x00, 0x00, 0x00, 0x00, 0x00, 0xe1, 0xff, 0xff, 0xff, 0x61]"

definition wrap_tail :: "byte list" where
  "wrap_tail =
    [0x50, 0x4b, 0x05, 0x06, 0x00, 0x00, 0x00, 0x00, 0x01, 0x00, 0x01, 0x00, 0x2f, 0x00, 0x00, 0x00,
     0x00, 0x00, 0x00, 0x00, 0x00, 0x00]"

definition wrap_zip :: "byte list" where
  "wrap_zip = wrap_head @ replicate (2 ^ 32 - 70) 0 @ wrap_tail"

section \<open>Properties\<close>

lemmas zip_consts = CD_SIGNATURE_def EOCD_LEN_def MAX_COMMENT_LEN_def MAX_EOCD_SEARCH_def
  ENTRY_SIGNATURE_def ENTRY_LEN_def LFH_SIZE_def kCompressionStored_def kCompressionDeflate_def

subsection \<open>Reading fields\<close>

lemma read_le_int_None_iff:
  "read_le_int b i = None \<longleftrightarrow> \<not> (0 \<le> i \<and> i + 4 \<le> int (length b))"
  by (auto simp: read_le_int_def read_byte_def split: Option.bind_splits)

lemma le_int_low_byte:
  "(ucast (ucast (b0::byte) OR push_bit 8 (ucast (b1::byte)) OR push_bit 16 (ucast (b2::byte))
       OR push_bit 24 (ucast (b3::byte)) :: u32) :: byte) = b0"
  by (rule bit_word_eqI) (auto simp: bit_simps)

lemma read_le_int_first_byte:
  "read_le_int b i = Some v \<Longrightarrow> read_byte b i = Some (ucast v)"
  by (auto simp: read_le_int_def le_int_low_byte split: Option.bind_splits)

lemma le_short_fits:
  "(ucast (ucast (ucast (b0::byte) OR push_bit 8 (ucast (b1::byte)) :: u32) :: u16) :: u32)
     = ucast b0 OR push_bit 8 (ucast b1)"
  by (rule bit_word_eqI) (auto simp: bit_simps dest: bit_imp_le_length)

lemma read_le_short_fits:
  "read_le_short b i = Some v \<Longrightarrow> (ucast (ucast v :: u16) :: u32) = v"
  by (auto simp: read_le_short_def le_short_fits split: Option.bind_splits)

lemma read_le_short_uint:
  assumes "read_le_short b i = Some v"
  shows "uint (ucast v :: u16) = uint v"
proof -
  have "uint (ucast (ucast v :: u16) :: u32) = uint (ucast v :: u16)"
    by (rule uint_up_ucast) (simp add: is_up)
  with read_le_short_fits [OF assms] show ?thesis by simp
qed

lemma bind7_Some_iff:
  "(do { a \<leftarrow> ma; b \<leftarrow> mb; c \<leftarrow> mc; d \<leftarrow> md; e \<leftarrow> me; f \<leftarrow> mf; g \<leftarrow> mg;
         Some (a, b, c, d, e, f, g) } = Some (a', b', c', d', e', f', g'))
   \<longleftrightarrow> ma = Some a' \<and> mb = Some b' \<and> mc = Some c' \<and> md = Some d' \<and> me = Some e'
        \<and> mf = Some f' \<and> mg = Some g'"
  by (auto split: Option.bind_splits)

lemma read_central_directory_entry_Inr:
  assumes "read_central_directory_entry file p0 len0 = Inr (e, p', len')"
  shows "\<exists>cm cs us fnl efl fcl lhro lefl.
    ENTRY_LEN \<le> len0
    \<and> read_le_int (buf file) p0 = Some ENTRY_SIGNATURE
    \<and> read_le_short (buf file) (p0 + 0x0a) = Some cm
    \<and> read_le_int (buf file) (p0 + 0x14) = Some cs
    \<and> read_le_int (buf file) (p0 + 0x18) = Some us
    \<and> read_le_short (buf file) (p0 + 0x1c) = Some fnl
    \<and> read_le_short (buf file) (p0 + 0x1e) = Some efl
    \<and> read_le_short (buf file) (p0 + 0x20) = Some fcl
    \<and> read_le_int (buf file) (p0 + 0x2a) = Some lhro
    \<and> read_le_short (buf file) (uint lhro + 0x1c) = Some lefl
    \<and> (ucast fnl :: u16) \<noteq> 0
    \<and> uint (ucast fnl :: u16) \<le> len0 - ENTRY_LEN
    \<and> uint (ucast efl :: u16) \<le> len0 - ENTRY_LEN - uint (ucast fnl :: u16)
    \<and> uint (ucast fcl :: u16) \<le> len0 - ENTRY_LEN - uint (ucast fnl :: u16) - uint (ucast efl :: u16)
    \<and> uint lhro < int (length (buf file))
    \<and> uint (lhro + LFH_SIZE + ucast (ucast fnl :: u16) + ucast (ucast lefl :: u16)) < int (length (buf file))
    \<and> (ucast cm = kCompressionStored \<longrightarrow> \<not> us > word_of_int (int (length (buf file))
           - uint (lhro + LFH_SIZE + ucast (ucast fnl :: u16) + ucast (ucast lefl :: u16))))
    \<and> (ucast cm = kCompressionDeflate \<longrightarrow> \<not> cs > word_of_int (int (length (buf file))
           - uint (lhro + LFH_SIZE + ucast (ucast fnl :: u16) + ucast (ucast lefl :: u16))))
    \<and> e = \<lparr>fileNameLength = ucast fnl, fileName = p0 + ENTRY_LEN, compressionMethod = ucast cm,
             uncompressedSize = us, compressedSize = cs,
             data = uint (lhro + LFH_SIZE + ucast (ucast fnl :: u16) + ucast (ucast lefl :: u16))\<rparr>
    \<and> p' = p0 + ENTRY_LEN + uint (ucast fnl :: u16) + uint (ucast efl :: u16) + uint (ucast fcl :: u16)
    \<and> len' = len0 - ENTRY_LEN - uint (ucast fnl :: u16) - uint (ucast efl :: u16) - uint (ucast fcl :: u16)"
  using assms unfolding read_central_directory_entry_def Let_def
  by (auto split: if_splits option.splits simp: not_less bind7_Some_iff)

lemma CD_SIGNATURE_low_byte: "(ucast CD_SIGNATURE :: byte) = 0x50"
  by (simp add: CD_SIGNATURE_def)

lemma eocd_here_in_bounds:
  assumes "0 \<le> p" "p + 4 \<le> int (length b)"
  shows "eocd_here b p = Some (sig_at b p)"
proof -
  obtain v where v: "read_le_int b p = Some v"
    using assms read_le_int_None_iff [of b p] by auto
  have c: "read_byte b p = Some (ucast v)" by (rule read_le_int_first_byte [OF v])
  show ?thesis
    using CD_SIGNATURE_low_byte by (auto simp: eocd_here_def sig_at_def v c)
qed

lemma eocd_scan_result:
  assumes "0 \<le> start" "p + 4 \<le> int (length b)" "start - 1 \<le> p"
  shows "\<exists>q. eocd_scan b start p = Inr q \<and> start - 1 \<le> q \<and> q \<le> p
           \<and> (\<forall>r. q < r \<and> r \<le> p \<longrightarrow> \<not> sig_at b r)
           \<and> (start \<le> q \<longrightarrow> sig_at b q)"
  using assms
proof (induction b start p rule: eocd_scan.induct)
  case (1 b start p)
  show ?case
  proof (cases "p \<ge> start")
    case False
    with "1.prems" show ?thesis by (subst eocd_scan.simps) auto
  next
    case True
    with "1.prems" have here: "eocd_here b p = Some (sig_at b p)"
      by (intro eocd_here_in_bounds) auto
    show ?thesis
    proof (cases "sig_at b p")
      case True
      with \<open>p \<ge> start\<close> here show ?thesis by (subst eocd_scan.simps) auto
    next
      case False
      with here True "1.prems" obtain q where q: "eocd_scan b start (p - 1) = Inr q" "start - 1 \<le> q" "q \<le> p - 1"
          "\<forall>r. q < r \<and> r \<le> p - 1 \<longrightarrow> \<not> sig_at b r" "start \<le> q \<longrightarrow> sig_at b q"
        using "1.IH" [of False] by auto
      have "\<forall>r. q < r \<and> r \<le> p \<longrightarrow> \<not> sig_at b r"
      proof (intro allI impI)
        fix r assume "q < r \<and> r \<le> p"
        then consider "r \<le> p - 1" | "r = p" by linarith
        then show "\<not> sig_at b r" using q(4) False \<open>q < r \<and> r \<le> p\<close> by cases auto
      qed
      with q True here False show ?thesis by (subst eocd_scan.simps) auto
    qed
  qed
qed

subsection \<open>The search for the end-of-central-directory record\<close>

lemma signature_here_in_bounds:
  assumes "0 \<le> p" "p + 4 \<le> int (length b)"
  shows "signature_here b p = Some (sig_at b p)"
  using assms read_le_int_None_iff [of b p]
  by (auto simp: signature_here_def sig_at_def split: option.splits)

lemma eocd_scan_nocheck_eq:
  assumes "0 \<le> start" "p + 4 \<le> int (length b)"
  shows "eocd_scan_nocheck b start p = eocd_scan b start p"
  using assms
proof (induction b start p rule: eocd_scan.induct)
  case (1 b start p)
  show ?case
  proof (cases "p \<ge> start")
    case False
    then show ?thesis
      by (subst eocd_scan_nocheck.simps, subst eocd_scan.simps) simp
  next
    case True
    with "1.prems" have h: "eocd_here b p = Some (sig_at b p)"
      "signature_here b p = Some (sig_at b p)"
      by (auto intro: eocd_here_in_bounds signature_here_in_bounds)
    show ?thesis
    proof (cases "sig_at b p")
      case True
      with h \<open>p \<ge> start\<close> show ?thesis
        by (subst eocd_scan_nocheck.simps, subst eocd_scan.simps) simp
    next
      case False
      with h True "1.prems" have "eocd_scan_nocheck b start (p - 1) = eocd_scan b start (p - 1)"
        using "1.IH" [of False] by auto
      with h True False show ?thesis
        by (subst eocd_scan_nocheck.simps, subst eocd_scan.simps) simp
    qed
  qed
qed

lemma window_start_bounds:
  "0 \<le> window_start b" "window_start b \<le> int (length b)"
  "int (length b) - window_start b \<le> 65557"
  by (auto simp: window_start_def)

lemma find_eocd_window:
  "find_eocd b =
     (if int (length b) < 22 then Inl NotAZip
      else case eocd_scan b (window_start b) (int (length b) - 4) of
             Inl e \<Rightarrow> Inl e
           | Inr p \<Rightarrow> if p < window_start b then Inl NotAZip else Inr p)"
  by (auto simp: find_eocd_def window_start_def zip_consts Let_def split: sum.splits)

lemma find_eocd_nocheck_window:
  "find_eocd_nocheck b =
     (if int (length b) < 22 then Inl NotAZip
      else case eocd_scan_nocheck b (window_start b) (int (length b) - 4) of
             Inl e \<Rightarrow> Inl e
           | Inr p \<Rightarrow> if p < window_start b then Inl NotAZip else Inr p)"
  by (auto simp: find_eocd_nocheck_def window_start_def zip_consts Let_def split: sum.splits)

lemma find_eocd_cases:
  assumes "22 \<le> int (length b)"
  obtains (none) "find_eocd b = Inl NotAZip"
      "\<forall>p. window_start b \<le> p \<and> p \<le> int (length b) - 4 \<longrightarrow> \<not> sig_at b p"
  | (found) e where "find_eocd b = Inr e" "window_start b \<le> e" "e \<le> int (length b) - 4"
      "sig_at b e" "\<forall>p. e < p \<and> p \<le> int (length b) - 4 \<longrightarrow> \<not> sig_at b p"
proof -
  have "window_start b - 1 \<le> int (length b) - 4"
    using assms by (auto simp: window_start_def)
  then obtain q where q: "eocd_scan b (window_start b) (int (length b) - 4) = Inr q"
      "window_start b - 1 \<le> q" "q \<le> int (length b) - 4"
      "\<forall>r. q < r \<and> r \<le> int (length b) - 4 \<longrightarrow> \<not> sig_at b r"
      "window_start b \<le> q \<longrightarrow> sig_at b q"
    using eocd_scan_result [of "window_start b" "int (length b) - 4" b] window_start_bounds(1) [of b]
    by auto
  show thesis
  proof (cases "q < window_start b")
    case True
    with q have "q = window_start b - 1" by simp
    with q True assms show thesis
      by (intro none) (auto simp: find_eocd_window)
  next
    case False
    with q assms show thesis
      by (intro found [of q]) (auto simp: find_eocd_window)
  qed
qed

lemma find_eocd_short: "int (length b) < 22 \<Longrightarrow> find_eocd b = Inl NotAZip"
  by (simp add: find_eocd_window)

lemma find_eocd_NotAZip_iff:
  "find_eocd b = Inl NotAZip \<longleftrightarrow>
     int (length b) < 22
     \<or> (\<forall>p. window_start b \<le> p \<and> p \<le> int (length b) - 4 \<longrightarrow> \<not> sig_at b p)"
proof (cases "int (length b) < 22")
  case True
  then show ?thesis by (simp add: find_eocd_short)
next
  case False
  then have "22 \<le> int (length b)" by simp
  then show ?thesis
  proof (cases rule: find_eocd_cases)
    case none
    then show ?thesis by simp
  next
    case (found e)
    then have "\<not> (\<forall>p. window_start b \<le> p \<and> p \<le> int (length b) - 4 \<longrightarrow> \<not> sig_at b p)"
      by blast
    with found(1) False show ?thesis by simp
  qed
qed

lemma find_eocd_Inr_iff:
  "find_eocd b = Inr e \<longleftrightarrow>
     22 \<le> int (length b) \<and> window_start b \<le> e \<and> e \<le> int (length b) - 4 \<and> sig_at b e
     \<and> (\<forall>p. e < p \<and> p \<le> int (length b) - 4 \<longrightarrow> \<not> sig_at b p)"
  (is "?L \<longleftrightarrow> ?R")
proof (cases "int (length b) < 22")
  case True
  then show ?thesis by (simp add: find_eocd_short)
next
  case False
  then have len: "22 \<le> int (length b)" by simp
  then show ?thesis
  proof (cases rule: find_eocd_cases)
    case none
    then have "\<not> ?R" by blast
    with none(1) show ?thesis by simp
  next
    case (found e')
    show ?thesis
    proof
      assume ?L
      with found have "e = e'" by simp
      with found len show ?R by simp
    next
      assume R: ?R
      have "\<not> e < e'" using R found(3,4) by blast
      moreover have "\<not> e' < e" using R found(5) by blast
      ultimately have "e = e'" by simp
      with found(1) show ?L by simp
    qed
  qed
qed

lemma find_eocd_nocheck_same: "find_eocd_nocheck b = find_eocd b"
proof (cases "int (length b) < 22")
  case True
  then show ?thesis by (simp add: find_eocd_window find_eocd_nocheck_window)
next
  case False
  then have "eocd_scan_nocheck b (window_start b) (int (length b) - 4)
      = eocd_scan b (window_start b) (int (length b) - 4)"
    by (intro eocd_scan_nocheck_eq) (simp_all add: window_start_bounds)
  then show ?thesis by (simp add: find_eocd_window find_eocd_nocheck_window)
qed

text \<open>
  C4. The locator scans backward from offset \<open>length b - 4\<close> down to the start of a tail
  window of at most 65557 bytes and returns the highest offset of the window at which the
  four bytes are the signature 0x06054b50. It fails, with \<open>NotAZip\<close>, exactly when the
  buffer is shorter than 22 bytes or no position of the window carries the signature.
  The scan without the test of the first byte finds the same offset.
\<close>

theorem find_eocd_spec:
  "(int (length b) < 22 \<longrightarrow> find_eocd b = Inl NotAZip)
   \<and> (find_eocd b = Inl NotAZip \<longleftrightarrow>
        int (length b) < 22
        \<or> (\<forall>p. window_start b \<le> p \<and> p \<le> int (length b) - 4 \<longrightarrow> \<not> sig_at b p))
   \<and> (\<forall>e. find_eocd b = Inr e \<longleftrightarrow>
        22 \<le> int (length b) \<and> window_start b \<le> e \<and> e \<le> int (length b) - 4 \<and> sig_at b e
        \<and> (\<forall>p. e < p \<and> p \<le> int (length b) - 4 \<longrightarrow> \<not> sig_at b p))
   \<and> int (length b) - window_start b \<le> 65557
   \<and> find_eocd_nocheck b = find_eocd b"
  using find_eocd_short [of b] find_eocd_NotAZip_iff [of b] find_eocd_Inr_iff [of b]
    window_start_bounds(3) [of b] find_eocd_nocheck_same [of b]
  by blast

theorem find_eocd_spec_witness:
  "sig_at sig_in_comment_zip 22 \<and> find_eocd sig_in_comment_zip = Inr 22
   \<and> find_eocd_nocheck sig_in_comment_zip = Inr 22"
proof -
  have s: "sig_at sig_in_comment_zip 22"
    by (simp add: sig_at_def read_le_int_def read_byte_def sig_in_comment_zip_def CD_SIGNATURE_def)
  have l: "int (length sig_in_comment_zip) = 26"
    by (simp add: sig_in_comment_zip_def)
  have w: "window_start sig_in_comment_zip = 0"
    by (simp add: window_start_def l)
  have "find_eocd sig_in_comment_zip = Inr 22"
    using find_eocd_spec [of sig_in_comment_zip] s by (auto simp: l w)
  with s find_eocd_spec [of sig_in_comment_zip] show ?thesis by simp
qed

lemma eocd_scan_steps_le:
  "eocd_scan_steps b start p \<le> nat (p - start + 1)"
proof (induction b start p rule: eocd_scan_steps.induct)
  case (1 b start p)
  show ?case
  proof (cases "p \<ge> start")
    case False
    then show ?thesis by (subst eocd_scan_steps.simps) simp
  next
    case True
    show ?thesis
    proof (cases "eocd_here b p = Some False")
      case True
      with \<open>p \<ge> start\<close> "1.IH" [of False] show ?thesis
        by (subst eocd_scan_steps.simps) auto
    next
      case False
      with \<open>p \<ge> start\<close> show ?thesis
        by (subst eocd_scan_steps.simps) (auto split: option.splits bool.splits)
    qed
  qed
qed

subsection \<open>The entry loop\<close>

lemma read_central_directory_entry_buf:
  assumes "buf file = buf file'"
  shows "read_central_directory_entry file p len = read_central_directory_entry file' p len"
  unfolding read_central_directory_entry_def assms ..

lemma decode_forward_buf:
  assumes "buf file = buf file'"
  shows "decode_forward file p len n = decode_forward file' p len n"
proof (induction n arbitrary: p len)
  case 0
  show ?case by simp
next
  case (Suc n)
  have "read_central_directory_entry file p len = read_central_directory_entry file' p len"
    using assms by (rule read_central_directory_entry_buf)
  with Suc show ?case by (simp split: sum.splits)
qed

lemma decode_forward_length:
  "decode_forward file p len n = (es, r) \<Longrightarrow>
     length es \<le> n \<and> (r = None \<longrightarrow> length es = n) \<and> (r \<noteq> None \<longrightarrow> length es < n)"
proof (induction n arbitrary: p len es r)
  case 0
  then show ?case by simp
next
  case (Suc n)
  show ?case
  proof (cases "read_central_directory_entry file p len")
    case (Inl e)
    with Suc.prems show ?thesis by auto
  next
    case (Inr x)
    obtain entry p' len' where x: "x = (entry, p', len')" by (cases x) auto
    obtain es' r' where d: "decode_forward file p' len' n = (es', r')" by force
    from Suc.IH [OF d] Suc.prems Inr x d show ?thesis by auto
  qed
qed

lemma read_entries_forward:
  assumes "0 \<le> i" "i \<le> uint (totalEntryCount zf)"
  shows "read_entries zf p len i =
     (case decode_forward zf p len (nat (uint (totalEntryCount zf) - i)) of
        (es, r) \<Rightarrow> (r, zf\<lparr>entries := rev es @ entries zf\<rparr>))"
  using assms
proof (induction zf p len i rule: read_entries.induct)
  case (1 zf p len i)
  show ?case
  proof (cases "i < uint (totalEntryCount zf)")
    case False
    with "1.prems" have "nat (uint (totalEntryCount zf) - i) = 0" by simp
    with False show ?thesis by (subst read_entries.simps) simp
  next
    case True
    then obtain n where n: "nat (uint (totalEntryCount zf) - i) = Suc n"
      by (cases "nat (uint (totalEntryCount zf) - i)") auto
    show ?thesis
    proof (cases "read_central_directory_entry zf p len")
      case (Inl e)
      with True n show ?thesis by (subst read_entries.simps) simp
    next
      case (Inr x)
      obtain entry p' len' where x: "x = (entry, p', len')" by (cases x) auto
      let ?zf' = "zf\<lparr>entries := entry # entries zf\<rparr>"
      have n': "nat (uint (totalEntryCount ?zf') - (i + 1)) = n"
        using n by simp
      have ih: "read_entries ?zf' p' len' (i + 1) =
          (case decode_forward ?zf' p' len' n of
             (es, r) \<Rightarrow> (r, ?zf'\<lparr>entries := rev es @ entries ?zf'\<rparr>))"
        using "1.IH" [OF True Inr x [symmetric] refl] "1.prems" True n' by simp
      have df: "decode_forward ?zf' p' len' n = decode_forward zf p' len' n"
        by (rule decode_forward_buf) simp
      show ?thesis
        using True Inr x n ih df
        by (subst read_entries.simps) (simp split: prod.splits)
    qed
  qed
qed

lemma read_central_dir_values_keeps:
  assumes "read_central_dir_values file eocd len = (r, file1)"
  shows "buf file1 = buf file" "entries file1 = entries file"
  using assms
  by (auto simp: read_central_dir_values_def Let_def split: if_splits option.splits)

lemma read_central_dir_stages:
  "read_central_dir file =
     (case find_eocd (buf file) of
        Inl e \<Rightarrow> (Some e, file)
      | Inr eocd \<Rightarrow>
          (case read_central_dir_values file eocd (int (length (buf file)) - eocd) of
             (Some e, file1) \<Rightarrow> (Some e, file1)
           | (None, file1) \<Rightarrow>
               if disknum file1 \<noteq> 0 \<or> diskWithCentralDir file1 \<noteq> 0
                    \<or> entryCount file1 \<noteq> totalEntryCount file1
               then (Some SpanningUnsupported, file1)
               else read_entries file1 (uint (centralDirOffest file1))
                      (int (length (buf file)) - uint (centralDirOffest file1)) 0))"
  unfolding read_central_dir_def Let_def ..

lemma read_central_dir_entries:
  assumes "find_eocd (buf file) = Inr eocd"
    and "read_central_dir_values file eocd (int (length (buf file)) - eocd) = (None, file1)"
    and "disknum file1 = 0" "diskWithCentralDir file1 = 0"
    and "entryCount file1 = totalEntryCount file1"
    and "decode_forward file1 (uint (centralDirOffest file1))
           (int (length (buf file)) - uint (centralDirOffest file1))
           (unat (totalEntryCount file1)) = (es, r)"
  shows "read_central_dir file = (r, file1\<lparr>entries := rev es @ entries file\<rparr>)"
proof -
  have "read_central_dir file = read_entries file1 (uint (centralDirOffest file1))
      (int (length (buf file)) - uint (centralDirOffest file1)) 0"
    using assms(1-5) by (simp add: read_central_dir_stages)
  also have "\<dots> = (r, file1\<lparr>entries := rev es @ entries file1\<rparr>)"
    using assms(6) by (subst read_entries_forward) simp_all
  finally show ?thesis
    using read_central_dir_values_keeps(2) [OF assms(2)] by simp
qed

subsection \<open>Failures\<close>

lemma read_central_dir_find_fails:
  "find_eocd (buf file) = Inl e \<Longrightarrow> read_central_dir file = (Some e, file)"
  by (simp add: read_central_dir_stages)

lemma read_central_dir_values_fails:
  assumes "find_eocd (buf file) = Inr eocd"
    and "read_central_dir_values file eocd (int (length (buf file)) - eocd) = (Some e, file1)"
  shows "read_central_dir file = (Some e, file1)"
  using assms by (simp add: read_central_dir_stages)

lemma read_central_dir_spanning:
  assumes "find_eocd (buf file) = Inr eocd"
    and "read_central_dir_values file eocd (int (length (buf file)) - eocd) = (None, file1)"
    and "disknum file1 \<noteq> 0 \<or> diskWithCentralDir file1 \<noteq> 0
           \<or> entryCount file1 \<noteq> totalEntryCount file1"
  shows "read_central_dir file = (Some SpanningUnsupported, file1)"
  using assms by (simp add: read_central_dir_stages)

lemma read_central_dir_values_fields:
  assumes "read_central_dir_values file eocd len = (None, file1)"
  shows "\<exists>dn dw ec tec.
      read_le_short (buf file) (eocd + 0x04) = Some dn \<and> disknum file1 = ucast dn
    \<and> read_le_short (buf file) (eocd + 0x06) = Some dw \<and> diskWithCentralDir file1 = ucast dw
    \<and> read_le_short (buf file) (eocd + 0x08) = Some ec \<and> entryCount file1 = ucast ec
    \<and> read_le_short (buf file) (eocd + 0x0a) = Some tec \<and> totalEntryCount file1 = ucast tec"
  using assms
  by (auto simp: read_central_dir_values_def Let_def bind7_Some_iff
      split: if_splits option.splits)

text \<open>
  C7. When the end-of-central-directory record that was found decodes with a disk number
  other than 0, or a disk with the central directory other than 0, or an entry count
  that differs from the total entry count, the parse fails with \<open>SpanningUnsupported\<close>
  and no central-directory entry has been decoded: the entry collection is as before.
  The three values are the 16-bit fields at offsets 4, 6, 8 and 10 of the record.
\<close>

theorem spanning_unsupported:
  assumes "find_eocd (buf file) = Inr eocd"
    and "read_central_dir_values file eocd (int (length (buf file)) - eocd) = (None, file1)"
    and "disknum file1 \<noteq> 0 \<or> diskWithCentralDir file1 \<noteq> 0
           \<or> entryCount file1 \<noteq> totalEntryCount file1"
  shows "read_central_dir file = (Some SpanningUnsupported, file1)
    \<and> entries file1 = entries file
    \<and> (\<exists>dn dw ec tec.
          read_le_short (buf file) (eocd + 0x04) = Some dn \<and> disknum file1 = ucast dn
        \<and> read_le_short (buf file) (eocd + 0x06) = Some dw \<and> diskWithCentralDir file1 = ucast dw
        \<and> read_le_short (buf file) (eocd + 0x08) = Some ec \<and> entryCount file1 = ucast ec
        \<and> read_le_short (buf file) (eocd + 0x0a) = Some tec \<and> totalEntryCount file1 = ucast tec)"
  using read_central_dir_spanning [OF assms] read_central_dir_values_keeps(2) [OF assms(2)]
    read_central_dir_values_fields [OF assms(2)]
  by simp

theorem spanning_unsupported_witness:
  "fst (read_central_dir (zeroed_zipfile disk1_zip)) = Some SpanningUnsupported
   \<and> entries (snd (read_central_dir (zeroed_zipfile disk1_zip))) = []
   \<and> read_le_short disk1_zip 4 = Some 1
   \<and> fst (read_central_dir (zeroed_zipfile count_mismatch_zip)) = Some SpanningUnsupported
   \<and> read_le_short count_mismatch_zip 8 = Some 1
   \<and> read_le_short count_mismatch_zip 10 = Some 2"
proof -
  have rd: "read_le_short disk1_zip 4 = Some 1" "read_le_short count_mismatch_zip 8 = Some 1"
    "read_le_short count_mismatch_zip 10 = Some 2"
    by code_simp+
  have a: "fst (read_central_dir (zeroed_zipfile b)) = Some SpanningUnsupported
      \<and> entries (snd (read_central_dir (zeroed_zipfile b))) = []"
    if f: "find_eocd b = Inr 0" and l: "int (length b) = 22"
      and v: "fst (read_central_dir_values (zeroed_zipfile b) 0 22) = None"
      and s: "disknum (snd (read_central_dir_values (zeroed_zipfile b) 0 22)) \<noteq> 0
        \<or> diskWithCentralDir (snd (read_central_dir_values (zeroed_zipfile b) 0 22)) \<noteq> 0
        \<or> entryCount (snd (read_central_dir_values (zeroed_zipfile b) 0 22))
            \<noteq> totalEntryCount (snd (read_central_dir_values (zeroed_zipfile b) 0 22))" for b
  proof -
    have b: "buf (zeroed_zipfile b) = b" by (simp add: zeroed_zipfile_def)
    have 1: "find_eocd (buf (zeroed_zipfile b)) = Inr 0" using f b by simp
    have 2: "read_central_dir_values (zeroed_zipfile b) 0 (int (length (buf (zeroed_zipfile b))) - 0)
        = (None, snd (read_central_dir_values (zeroed_zipfile b) 0 22))"
      using v by (simp add: b l prod_eq_iff)
    from spanning_unsupported [OF 1 2 s] show ?thesis
      by (simp add: zeroed_zipfile_def)
  qed
  have "fst (read_central_dir (zeroed_zipfile disk1_zip)) = Some SpanningUnsupported
      \<and> entries (snd (read_central_dir (zeroed_zipfile disk1_zip))) = []"
    by (rule a) (code_simp+)
  moreover have "fst (read_central_dir (zeroed_zipfile count_mismatch_zip)) = Some SpanningUnsupported
      \<and> entries (snd (read_central_dir (zeroed_zipfile count_mismatch_zip))) = []"
    by (rule a) (code_simp+)
  ultimately show ?thesis using rd by simp
qed

text \<open>
  C3 (as amended). A failure of any step makes the parse report the failure. A failure
  of the search for the end-of-central-directory record, of its decoding or of the
  archive-level checks leaves the entry collection as it was. A failure of the decoding
  of an entry leaves in the collection, in front of what it held, the entries decoded
  before the failing one: they are not taken out again.
\<close>

theorem read_central_dir_failure:
  "(\<forall>e. find_eocd (buf file) = Inl e \<longrightarrow> read_central_dir file = (Some e, file))
   \<and> (\<forall>eocd e file1. find_eocd (buf file) = Inr eocd
        \<and> read_central_dir_values file eocd (int (length (buf file)) - eocd) = (Some e, file1)
        \<longrightarrow> read_central_dir file = (Some e, file1) \<and> entries file1 = entries file)
   \<and> (\<forall>eocd file1. find_eocd (buf file) = Inr eocd
        \<and> read_central_dir_values file eocd (int (length (buf file)) - eocd) = (None, file1)
        \<and> (disknum file1 \<noteq> 0 \<or> diskWithCentralDir file1 \<noteq> 0
             \<or> entryCount file1 \<noteq> totalEntryCount file1)
        \<longrightarrow> read_central_dir file = (Some SpanningUnsupported, file1)
            \<and> entries file1 = entries file)
   \<and> (\<forall>eocd file1 es e. find_eocd (buf file) = Inr eocd
        \<and> read_central_dir_values file eocd (int (length (buf file)) - eocd) = (None, file1)
        \<and> disknum file1 = 0 \<and> diskWithCentralDir file1 = 0
        \<and> entryCount file1 = totalEntryCount file1
        \<and> decode_forward file1 (uint (centralDirOffest file1))
             (int (length (buf file)) - uint (centralDirOffest file1))
             (unat (totalEntryCount file1)) = (es, Some e)
        \<longrightarrow> read_central_dir file = (Some e, file1\<lparr>entries := rev es @ entries file\<rparr>)
            \<and> length es < unat (totalEntryCount file1))"
proof (intro conjI allI impI)
  fix e assume "find_eocd (buf file) = Inl e"
  then show "read_central_dir file = (Some e, file)" by (rule read_central_dir_find_fails)
next
  fix eocd e file1
  assume "find_eocd (buf file) = Inr eocd
    \<and> read_central_dir_values file eocd (int (length (buf file)) - eocd) = (Some e, file1)"
  then have a: "find_eocd (buf file) = Inr eocd"
    "read_central_dir_values file eocd (int (length (buf file)) - eocd) = (Some e, file1)"
    by simp_all
  show "read_central_dir file = (Some e, file1)"
    by (rule read_central_dir_values_fails [OF a])
  show "entries file1 = entries file"
    by (rule read_central_dir_values_keeps(2) [OF a(2)])
next
  fix eocd file1
  assume "find_eocd (buf file) = Inr eocd
    \<and> read_central_dir_values file eocd (int (length (buf file)) - eocd) = (None, file1)
    \<and> (disknum file1 \<noteq> 0 \<or> diskWithCentralDir file1 \<noteq> 0
         \<or> entryCount file1 \<noteq> totalEntryCount file1)"
  then have a: "find_eocd (buf file) = Inr eocd"
    "read_central_dir_values file eocd (int (length (buf file)) - eocd) = (None, file1)"
    "disknum file1 \<noteq> 0 \<or> diskWithCentralDir file1 \<noteq> 0
         \<or> entryCount file1 \<noteq> totalEntryCount file1"
    by simp_all
  show "read_central_dir file = (Some SpanningUnsupported, file1)"
    by (rule read_central_dir_spanning [OF a])
  show "entries file1 = entries file"
    by (rule read_central_dir_values_keeps(2) [OF a(2)])
next
  fix eocd file1 es e
  assume "find_eocd (buf file) = Inr eocd
    \<and> read_central_dir_values file eocd (int (length (buf file)) - eocd) = (None, file1)
    \<and> disknum file1 = 0 \<and> diskWithCentralDir file1 = 0
    \<and> entryCount file1 = totalEntryCount file1
    \<and> decode_forward file1 (uint (centralDirOffest file1))
         (int (length (buf file)) - uint (centralDirOffest file1))
         (unat (totalEntryCount file1)) = (es, Some e)"
  then have a: "find_eocd (buf file) = Inr eocd"
    "read_central_dir_values file eocd (int (length (buf file)) - eocd) = (None, file1)"
    "disknum file1 = 0" "diskWithCentralDir file1 = 0"
    "entryCount file1 = totalEntryCount file1"
    "decode_forward file1 (uint (centralDirOffest file1))
         (int (length (buf file)) - uint (centralDirOffest file1))
         (unat (totalEntryCount file1)) = (es, Some e)"
    by simp_all
  show "read_central_dir file = (Some e, file1\<lparr>entries := rev es @ entries file\<rparr>)"
    by (rule read_central_dir_entries [OF a])
  show "length es < unat (totalEntryCount file1)"
    using decode_forward_length [OF a(6)] by simp
qed

theorem read_central_dir_failure_witness:
  "fst (read_central_dir (zeroed_zipfile second_entry_missing_zip)) = Some Truncated
   \<and> map data (entries (snd (read_central_dir (zeroed_zipfile second_entry_missing_zip)))) = [32]
   \<and> read_central_dir (zeroed_zipfile []) = (Some NotAZip, zeroed_zipfile [])"
proof -
  define f1 where
    "f1 = snd (read_central_dir_values (zeroed_zipfile second_entry_missing_zip) 47 22)"
  define es where "es = fst (decode_forward f1 0 69 2)"
  have b: "buf (zeroed_zipfile second_entry_missing_zip) = second_entry_missing_zip"
    by (simp add: zeroed_zipfile_def)
  have l: "int (length second_entry_missing_zip) = 69"
    by (simp add: second_entry_missing_zip_def)
  have 1: "find_eocd (buf (zeroed_zipfile second_entry_missing_zip)) = Inr 47"
    unfolding b by code_simp
  have "fst (read_central_dir_values (zeroed_zipfile second_entry_missing_zip) 47 22) = None"
    by code_simp
  then have 2: "read_central_dir_values (zeroed_zipfile second_entry_missing_zip) 47
      (int (length (buf (zeroed_zipfile second_entry_missing_zip))) - 47) = (None, f1)"
    unfolding b l f1_def by (simp add: prod_eq_iff)
  have 3: "disknum f1 = 0" "diskWithCentralDir f1 = 0" "entryCount f1 = totalEntryCount f1"
    "unat (totalEntryCount f1) = 2" "uint (centralDirOffest f1) = 0"
    unfolding f1_def by code_simp+
  have "snd (decode_forward f1 0 69 2) = Some Truncated"
    unfolding f1_def by code_simp
  then have 4: "decode_forward f1 (uint (centralDirOffest f1))
      (int (length (buf (zeroed_zipfile second_entry_missing_zip))) - uint (centralDirOffest f1))
      (unat (totalEntryCount f1)) = (es, Some Truncated)"
    unfolding b l es_def 3 by (simp add: prod_eq_iff)
  have 5: "entries (zeroed_zipfile second_entry_missing_zip) = []"
    by (simp add: zeroed_zipfile_def)
  have 6: "map data (rev es) = [32]"
    unfolding es_def f1_def by code_simp
  have "read_central_dir (zeroed_zipfile second_entry_missing_zip)
      = (Some Truncated, f1\<lparr>entries := rev es @ entries (zeroed_zipfile second_entry_missing_zip)\<rparr>)"
    using read_central_dir_failure [of "zeroed_zipfile second_entry_missing_zip"] 1 2 3(1-3) 4
    by blast
  with 5 6 have a: "fst (read_central_dir (zeroed_zipfile second_entry_missing_zip)) = Some Truncated"
    "map data (entries (snd (read_central_dir (zeroed_zipfile second_entry_missing_zip)))) = [32]"
    by simp_all
  have "find_eocd (buf (zeroed_zipfile [])) = Inl NotAZip"
    by code_simp
  with read_central_dir_failure [of "zeroed_zipfile []"]
  have "read_central_dir (zeroed_zipfile []) = (Some NotAZip, zeroed_zipfile [])"
    by blast
  with a show ?thesis by blast
qed

theorem partial_entries_counterexample:
  "fst (read_central_dir (zeroed_zipfile second_entry_missing_zip)) = Some Truncated
   \<and> entries (zeroed_zipfile second_entry_missing_zip) = []
   \<and> entries (snd (read_central_dir (zeroed_zipfile second_entry_missing_zip))) =
       [\<lparr>fileNameLength = 1, fileName = 46, compressionMethod = 0, uncompressedSize = 0,
         compressedSize = 0, data = 32\<rparr>]"
  by code_simp

subsection \<open>Decoded entries\<close>

lemma read_central_directory_entry_InrE:
  assumes "read_central_directory_entry file p0 len0 = Inr (e, p', len')"
  obtains cm cs us fnl efl fcl lhro lefl where
    "ENTRY_LEN \<le> len0"
    "read_le_int (buf file) p0 = Some ENTRY_SIGNATURE"
    "read_le_short (buf file) (p0 + 0x0a) = Some cm"
    "read_le_int (buf file) (p0 + 0x14) = Some cs"
    "read_le_int (buf file) (p0 + 0x18) = Some us"
    "read_le_short (buf file) (p0 + 0x1c) = Some fnl"
    "read_le_short (buf file) (p0 + 0x1e) = Some efl"
    "read_le_short (buf file) (p0 + 0x20) = Some fcl"
    "read_le_int (buf file) (p0 + 0x2a) = Some lhro"
    "read_le_short (buf file) (uint lhro + 0x1c) = Some lefl"
    "(ucast fnl :: u16) \<noteq> 0"
    "uint (ucast fnl :: u16) \<le> len0 - ENTRY_LEN"
    "uint (ucast efl :: u16) \<le> len0 - ENTRY_LEN - uint (ucast fnl :: u16)"
    "uint (ucast fcl :: u16) \<le> len0 - ENTRY_LEN - uint (ucast fnl :: u16) - uint (ucast efl :: u16)"
    "uint lhro < int (length (buf file))"
    "uint (lhro + LFH_SIZE + ucast (ucast fnl :: u16) + ucast (ucast lefl :: u16)) < int (length (buf file))"
    "ucast cm = kCompressionStored \<longrightarrow> \<not> us > word_of_int (int (length (buf file))
           - uint (lhro + LFH_SIZE + ucast (ucast fnl :: u16) + ucast (ucast lefl :: u16)))"
    "ucast cm = kCompressionDeflate \<longrightarrow> \<not> cs > word_of_int (int (length (buf file))
           - uint (lhro + LFH_SIZE + ucast (ucast fnl :: u16) + ucast (ucast lefl :: u16)))"
    "e = \<lparr>fileNameLength = ucast fnl, fileName = p0 + ENTRY_LEN, compressionMethod = ucast cm,
             uncompressedSize = us, compressedSize = cs,
             data = uint (lhro + LFH_SIZE + ucast (ucast fnl :: u16) + ucast (ucast lefl :: u16))\<rparr>"
    "p' = p0 + ENTRY_LEN + uint (ucast fnl :: u16) + uint (ucast efl :: u16) + uint (ucast fcl :: u16)"
    "len' = len0 - ENTRY_LEN - uint (ucast fnl :: u16) - uint (ucast efl :: u16) - uint (ucast fcl :: u16)"
  using read_central_directory_entry_Inr [OF assms]
  by (elim exE conjE) (rule that; assumption)

lemma entry_data_in_buffer:
  assumes "read_central_directory_entry file p len = Inr (e, p', len')"
  shows "0 \<le> data e" "data e < int (length (buf file))"
  using assms by (auto elim!: read_central_directory_entry_InrE)

lemma u32_le_of_int:
  assumes "0 \<le> k" "\<not> (word_of_int k :: u32) < w"
  shows "uint w \<le> k"
proof -
  have "uint w \<le> uint (word_of_int k :: u32)"
    using assms(2) by (simp add: word_le_def not_less)
  also have "\<dots> = take_bit 32 k" by (simp add: uint_word_of_int_eq)
  also have "\<dots> \<le> k" using assms(1) by (simp add: take_bit_int_less_eq_self_iff)
  finally show ?thesis .
qed

lemma entry_size_in_buffer:
  assumes "read_central_directory_entry file p len = Inr (e, p', len')"
  shows "compressionMethod e = kCompressionStored
           \<Longrightarrow> uint (uncompressedSize e) \<le> int (length (buf file)) - data e"
    and "compressionMethod e = kCompressionDeflate
           \<Longrightarrow> uint (compressedSize e) \<le> int (length (buf file)) - data e"
  using assms by (auto elim!: read_central_directory_entry_InrE intro!: u32_le_of_int)

lemma decode_forward_members:
  assumes "decode_forward file p len n = (es, r)" "e \<in> set es"
  shows "\<exists>q l q' l'. read_central_directory_entry file q l = Inr (e, q', l')"
  using assms
proof (induction n arbitrary: p len es r)
  case 0
  then show ?case by simp
next
  case (Suc n)
  show ?case
  proof (cases "read_central_directory_entry file p len")
    case (Inl err)
    with Suc.prems show ?thesis by auto
  next
    case (Inr x)
    obtain entry p' len' where x: "x = (entry, p', len')" by (cases x) auto
    obtain es' r' where d: "decode_forward file p' len' n = (es', r')" by force
    from Suc.prems Inr x d have "e = entry \<or> e \<in> set es'" by auto
    then show ?thesis
    proof
      assume "e = entry"
      with Inr x show ?thesis by blast
    next
      assume "e \<in> set es'"
      with Suc.IH [OF d] show ?thesis by blast
    qed
  qed
qed

lemma read_central_dir_success:
  assumes "read_central_dir file = (None, file')"
  obtains eocd file1 es where
    "find_eocd (buf file) = Inr eocd"
    "read_central_dir_values file eocd (int (length (buf file)) - eocd) = (None, file1)"
    "disknum file1 = 0" "diskWithCentralDir file1 = 0"
    "entryCount file1 = totalEntryCount file1"
    "decode_forward file1 (uint (centralDirOffest file1))
       (int (length (buf file)) - uint (centralDirOffest file1))
       (unat (totalEntryCount file1)) = (es, None)"
    "file' = file1\<lparr>entries := rev es @ entries file\<rparr>"
proof -
  from assms obtain eocd where 1: "find_eocd (buf file) = Inr eocd"
    by (cases "find_eocd (buf file)") (auto simp: read_central_dir_stages)
  obtain r1 file1 where 2: "read_central_dir_values file eocd (int (length (buf file)) - eocd)
      = (r1, file1)" by force
  with assms 1 have r1: "r1 = None"
    by (cases r1) (auto simp: read_central_dir_stages)
  from assms 1 2 r1 have 3: "disknum file1 = 0" "diskWithCentralDir file1 = 0"
    "entryCount file1 = totalEntryCount file1"
    by (auto simp: read_central_dir_stages split: if_splits)
  obtain es r where 4: "decode_forward file1 (uint (centralDirOffest file1))
       (int (length (buf file)) - uint (centralDirOffest file1))
       (unat (totalEntryCount file1)) = (es, r)" by force
  from read_central_dir_entries [OF 1 2 [unfolded r1] 3 4] assms
  have "r = None" "file' = file1\<lparr>entries := rev es @ entries file\<rparr>" by simp_all
  with 1 2 r1 3 4 that show thesis by blast
qed

text \<open>
  C2. Every entry descriptor of a successful parse has its data offset inside the
  buffer; when its compression method is stored (0) its uncompressed size, and when it
  is deflate (8) its compressed size, is at most the number of bytes from the data offset
  to the end of the buffer. For another compression method no bound on the sizes is
  checked: there is an archive that is parsed with success and has an entry of another
  method whose two sizes both exceed what is left of the buffer.
\<close>

theorem entries_within_buffer:
  "(\<forall>file file' e. read_central_dir file = (None, file') \<and> entries file = []
        \<and> e \<in> set (entries file') \<longrightarrow>
      0 \<le> data e \<and> data e < int (length (buf file))
      \<and> (compressionMethod e = kCompressionStored
            \<longrightarrow> uint (uncompressedSize e) \<le> int (length (buf file)) - data e)
      \<and> (compressionMethod e = kCompressionDeflate
            \<longrightarrow> uint (compressedSize e) \<le> int (length (buf file)) - data e))
   \<and> (\<exists>b file' e. read_central_dir (zeroed_zipfile b) = (None, file')
        \<and> e \<in> set (entries file')
        \<and> compressionMethod e \<noteq> kCompressionStored
        \<and> compressionMethod e \<noteq> kCompressionDeflate
        \<and> uint (uncompressedSize e) > int (length b) - data e
        \<and> uint (compressedSize e) > int (length b) - data e)"
proof (intro conjI allI impI)
  fix zf zf' e
  assume "read_central_dir zf = (None, zf') \<and> entries zf = []
        \<and> e \<in> set (entries zf')"
  then have a: "read_central_dir zf = (None, zf')" "entries zf = []"
    "e \<in> set (entries zf')" by simp_all
  from a(1) obtain eocd file1 es where
    v: "read_central_dir_values zf eocd (int (length (buf zf)) - eocd) = (None, file1)"
    and d: "decode_forward file1 (uint (centralDirOffest file1))
       (int (length (buf zf)) - uint (centralDirOffest file1))
       (unat (totalEntryCount file1)) = (es, None)"
    and f: "zf' = file1\<lparr>entries := rev es @ entries zf\<rparr>"
    by (rule read_central_dir_success)
  from a(2,3) f have "e \<in> set es" by simp
  from decode_forward_members [OF d this] obtain q l q' l' where
    r: "read_central_directory_entry file1 q l = Inr (e, q', l')" by blast
  have b: "buf file1 = buf zf" by (rule read_central_dir_values_keeps(1) [OF v])
  show "0 \<le> data e" by (rule entry_data_in_buffer(1) [OF r])
  show "data e < int (length (buf zf))"
    using entry_data_in_buffer(2) [OF r] b by simp
  show "uint (uncompressedSize e) \<le> int (length (buf zf)) - data e"
    if "compressionMethod e = kCompressionStored"
    using entry_size_in_buffer(1) [OF r that] b by simp
  show "uint (compressedSize e) \<le> int (length (buf zf)) - data e"
    if "compressionMethod e = kCompressionDeflate"
    using entry_size_in_buffer(2) [OF r that] b by simp
next
  let ?r = "read_central_dir (zeroed_zipfile other_method_zip)"
  let ?e = "hd (entries (snd ?r))"
  have "fst ?r = None" by code_simp
  then have 1: "?r = (None, snd ?r)" by (simp add: prod_eq_iff)
  have 2: "?e \<in> set (entries (snd ?r))" by code_simp
  have 3: "compressionMethod ?e \<noteq> kCompressionStored"
    "compressionMethod ?e \<noteq> kCompressionDeflate"
    "uint (uncompressedSize ?e) > int (length other_method_zip) - data ?e"
    "uint (compressedSize ?e) > int (length other_method_zip) - data ?e"
    by code_simp+
  from 1 2 3 show "\<exists>b file' e. read_central_dir (zeroed_zipfile b) = (None, file')
        \<and> e \<in> set (entries file')
        \<and> compressionMethod e \<noteq> kCompressionStored
        \<and> compressionMethod e \<noteq> kCompressionDeflate
        \<and> uint (uncompressedSize e) > int (length b) - data e
        \<and> uint (compressedSize e) > int (length b) - data e"
    by blast
qed

theorem entries_within_buffer_witness:
  "fst (read_central_dir (zeroed_zipfile two_entry_zip)) = None
   \<and> compressionMethod (hd (entries (snd (read_central_dir (zeroed_zipfile two_entry_zip)))))
       = kCompressionDeflate
   \<and> 0 \<le> data (hd (entries (snd (read_central_dir (zeroed_zipfile two_entry_zip)))))
   \<and> data (hd (entries (snd (read_central_dir (zeroed_zipfile two_entry_zip)))))
       < int (length two_entry_zip)
   \<and> uint (compressedSize (hd (entries (snd (read_central_dir (zeroed_zipfile two_entry_zip))))))
       \<le> int (length two_entry_zip)
           - data (hd (entries (snd (read_central_dir (zeroed_zipfile two_entry_zip)))))"
proof -
  let ?r = "read_central_dir (zeroed_zipfile two_entry_zip)"
  let ?e = "hd (entries (snd ?r))"
  have 0: "fst ?r = None" by code_simp
  then have 1: "?r = (None, snd ?r)" by (simp add: prod_eq_iff)
  have 2: "entries (zeroed_zipfile two_entry_zip) = []" by (simp add: zeroed_zipfile_def)
  have 3: "buf (zeroed_zipfile two_entry_zip) = two_entry_zip"
    by (simp add: zeroed_zipfile_def)
  have 4: "?e \<in> set (entries (snd ?r))" by code_simp
  have 5: "compressionMethod ?e = kCompressionDeflate" by code_simp
  from entries_within_buffer
  have "\<forall>file file' e. read_central_dir file = (None, file') \<and> entries file = []
        \<and> e \<in> set (entries file') \<longrightarrow>
      0 \<le> data e \<and> data e < int (length (buf file))
      \<and> (compressionMethod e = kCompressionStored
            \<longrightarrow> uint (uncompressedSize e) \<le> int (length (buf file)) - data e)
      \<and> (compressionMethod e = kCompressionDeflate
            \<longrightarrow> uint (compressedSize e) \<le> int (length (buf file)) - data e)"
    by (rule conjunct1)
  from this [rule_format, of "zeroed_zipfile two_entry_zip" "snd ?r" ?e] 1 2 4 5
  have "0 \<le> data ?e \<and> data ?e < int (length two_entry_zip)
      \<and> uint (compressedSize ?e) \<le> int (length two_entry_zip) - data ?e"
    unfolding 3 by blast
  with 0 5 show ?thesis by blast
qed

subsection \<open>Termination and the number of iterations\<close>

lemma eocd_scan_steps_window:
  "eocd_scan_steps b (window_start b) (int (length b) - 4) \<le> 65554"
proof -
  have "eocd_scan_steps b (window_start b) (int (length b) - 4)
      \<le> nat (int (length b) - 4 - window_start b + 1)"
    by (rule eocd_scan_steps_le)
  also have "\<dots> \<le> 65554"
    using window_start_bounds(3) [of b] by simp
  finally show ?thesis .
qed

lemma read_entries_iterations_le:
  assumes "0 \<le> i"
  shows "read_entries_iterations zf p len i \<le> nat (uint (totalEntryCount zf) - i)"
  using assms
proof (induction zf p len i rule: read_entries_iterations.induct)
  case (1 zf p len i)
  show ?case
  proof (cases "i < uint (totalEntryCount zf)")
    case False
    then show ?thesis by (subst read_entries_iterations.simps) simp
  next
    case True
    show ?thesis
    proof (cases "read_central_directory_entry zf p len")
      case (Inl e)
      with True show ?thesis by (subst read_entries_iterations.simps) simp
    next
      case (Inr x)
      obtain entry p' len' where x: "x = (entry, p', len')" by (cases x) auto
      from "1.IH" [OF True Inr x [symmetric] refl] "1.prems"
      have "read_entries_iterations (zf\<lparr>entries := entry # entries zf\<rparr>) p' len' (i + 1)
          \<le> nat (uint (totalEntryCount zf) - (i + 1))" by simp
      with True Inr x show ?thesis by (subst read_entries_iterations.simps) simp
    qed
  qed
qed

lemma read_entries_iterations_success:
  assumes "0 \<le> i" "fst (read_entries zf p len i) = None"
  shows "read_entries_iterations zf p len i = nat (uint (totalEntryCount zf) - i)"
  using assms
proof (induction zf p len i rule: read_entries_iterations.induct)
  case (1 zf p len i)
  show ?case
  proof (cases "i < uint (totalEntryCount zf)")
    case False
    then show ?thesis by (subst read_entries_iterations.simps) simp
  next
    case True
    show ?thesis
    proof (cases "read_central_directory_entry zf p len")
      case (Inl e)
      with True "1.prems"(2) show ?thesis by (subst (asm) read_entries.simps) simp
    next
      case (Inr x)
      obtain entry p' len' where x: "x = (entry, p', len')" by (cases x) auto
      from "1.prems"(2) True Inr x
      have "fst (read_entries (zf\<lparr>entries := entry # entries zf\<rparr>) p' len' (i + 1)) = None"
        by (subst (asm) read_entries.simps) simp
      with "1.IH" [OF True Inr x [symmetric] refl] "1.prems"(1)
      have "read_entries_iterations (zf\<lparr>entries := entry # entries zf\<rparr>) p' len' (i + 1)
          = nat (uint (totalEntryCount zf) - (i + 1))" by simp
      with True Inr x show ?thesis by (subst read_entries_iterations.simps) simp
    qed
  qed
qed

lemma entry_cursor_advances:
  assumes "read_central_directory_entry file p len = Inr (e, p', len')"
  shows "p + 47 \<le> p'" "len' \<le> len - 47" "0 \<le> len'" "p' + len' = p + len"
proof -
  from assms obtain a b c :: u16 where
    f: "a \<noteq> 0" "uint a \<le> len - 46" "uint b \<le> len - 46 - uint a"
      "uint c \<le> len - 46 - uint a - uint b"
      "p' = p + 46 + uint a + uint b + uint c" "len' = len - 46 - uint a - uint b - uint c"
    by (elim read_central_directory_entry_InrE) (simp add: ENTRY_LEN_def)
  have "0 < uint a"
    using f(1) uint_0_iff [of a] uint_ge_0 [of a] by linarith
  with f uint_ge_0 [of b] uint_ge_0 [of c]
  show "p + 47 \<le> p'" "len' \<le> len - 47" "0 \<le> len'" "p' + len' = p + len"
    by linarith+
qed

text \<open>
  C9 (as amended). The parse is a total function: the two loops are defined by
  recursions whose termination is proved. The backward scan visits at most 65554
  positions. The entry loop runs at most \<open>totalEntryCount\<close> iterations, a 16-bit value
  and so at most 65535, and exactly that many when the parse of the entries succeeds; an
  iteration either fails, which ends the loop, or moves the cursor forward and shortens
  what is left.
\<close>

theorem parse_terminates:
  "(\<exists>r file'. read_central_dir file = (r, file'))
   \<and> eocd_scan_steps b (window_start b) (int (length b) - 4) \<le> 65554
   \<and> read_entries_iterations file p len 0 \<le> unat (totalEntryCount file)
   \<and> unat (totalEntryCount file) \<le> 65535
   \<and> (fst (read_entries file p len 0) = None
        \<longrightarrow> read_entries_iterations file p len 0 = unat (totalEntryCount file))
   \<and> (\<forall>e p' len'. read_central_directory_entry file p len = Inr (e, p', len')
        \<longrightarrow> p < p' \<and> len' < len)"
proof -
  have 1: "\<exists>r file'. read_central_dir file = (r, file')" by (simp add: prod_eq_iff)
  have 2: "read_entries_iterations file p len 0 \<le> unat (totalEntryCount file)"
    using read_entries_iterations_le [of 0 "file" p len] by simp
  have 3: "unat (totalEntryCount file) \<le> 65535"
  proof -
    have "unat (totalEntryCount file) < 2 ^ 16"
      using unsigned_less [of "totalEntryCount file"] by simp
    then show ?thesis by simp
  qed
  have 4: "read_entries_iterations file p len 0 = unat (totalEntryCount file)"
    if "fst (read_entries file p len 0) = None"
    using read_entries_iterations_success [of 0 "file" p len] that by simp
  have 5: "p < p' \<and> len' < len"
    if "read_central_directory_entry file p len = Inr (e, p', len')" for e p' len'
    using entry_cursor_advances(1,2) [OF that] by simp
  from 1 eocd_scan_steps_window [of b] 2 3 4 5 show ?thesis by blast
qed

theorem parse_terminates_witness:
  "fst (read_entries (snd (read_central_dir_values (zeroed_zipfile two_entry_zip) 187 22)) 85 124 0) = None
   \<and> read_entries_iterations (snd (read_central_dir_values (zeroed_zipfile two_entry_zip) 187 22)) 85 124 0 = 2
   \<and> read_central_directory_entry (zeroed_zipfile two_entry_zip) 85 124
       = Inr (\<lparr>fileNameLength = 5, fileName = 131, compressionMethod = 0, uncompressedSize = 5,
                compressedSize = 5, data = 35\<rparr>, 136, 73)
   \<and> (85 :: int) < 136 \<and> (73 :: int) < 124"
proof -
  let ?f = "snd (read_central_dir_values (zeroed_zipfile two_entry_zip) 187 22)"
  have 1: "fst (read_entries ?f 85 124 0) = None" by code_simp
  have 2: "unat (totalEntryCount ?f) = 2" by code_simp
  have 3: "read_central_directory_entry (zeroed_zipfile two_entry_zip) 85 124
       = Inr (\<lparr>fileNameLength = 5, fileName = 131, compressionMethod = 0, uncompressedSize = 5,
                compressedSize = 5, data = 35\<rparr>, 136, 73)" by code_simp
  from parse_terminates [of ?f two_entry_zip 85 124] 1 2
  have "read_entries_iterations ?f 85 124 0 = 2" by simp
  moreover from parse_terminates [of "zeroed_zipfile two_entry_zip" two_entry_zip 85 124] 3
  have "(85 :: int) < 136 \<and> (73 :: int) < 124" by blast
  ultimately show ?thesis using 1 3 by blast
qed

theorem entry_loop_stops_early_counterexample:
  "find_eocd two_declared_zip = Inr 0
   \<and> fst (read_central_dir (zeroed_zipfile two_declared_zip)) = Some Truncated
   \<and> unat (totalEntryCount (snd (read_central_dir (zeroed_zipfile two_declared_zip)))) = 2
   \<and> read_central_directory_entry
         (snd (read_central_dir_values (zeroed_zipfile two_declared_zip) 0 22)) 0 22
       = Inl Truncated
   \<and> read_entries_iterations
         (snd (read_central_dir_values (zeroed_zipfile two_declared_zip) 0 22)) 0 22 0 = 1"
  by code_simp

subsection \<open>Reads outside the buffer\<close>

text \<open>
  C1. No byte outside the buffer should be read, and the two bytes at offset 0x1c of a
  local header whose offset is inside the buffer should be inside it too. On the archive
  of 69 bytes whose only central-directory record gives the local header offset 60, an
  offset inside the buffer, the entry decoder passes the test of that offset and reads
  the bytes at 88 and 89, which are outside.
\<close>

theorem local_header_read_out_of_bounds:
  "length short_tail_zip = 69
   \<and> find_eocd short_tail_zip = Inr 47
   \<and> read_le_int short_tail_zip (0 + 0x2a) = Some 60
   \<and> read_le_short short_tail_zip (60 + 0x1c) = None
   \<and> read_central_directory_entry (zeroed_zipfile short_tail_zip) 0 69 = Inl OutOfBounds
   \<and> fst (read_central_dir (zeroed_zipfile short_tail_zip)) = Some OutOfBounds"
  by code_simp

theorem local_header_read_out_of_bounds_witness:
  "(60 :: int) < int (length short_tail_zip)
   \<and> \<not> (60 + 0x1c + 2 \<le> int (length short_tail_zip))
   \<and> fst (read_central_dir (zeroed_zipfile short_tail_zip)) = Some OutOfBounds"
  using local_header_read_out_of_bounds by simp

subsection \<open>The data offset\<close>

lemma read_central_directory_entry_data_check:
  assumes "read_central_directory_entry file p0 len0 = r"
    and "r \<noteq> Inl Truncated" "r \<noteq> Inl OutOfBounds" "r \<noteq> Inl BadSignature"
    and "r \<noteq> Inl MissingFileName" "r \<noteq> Inl InvalidLocalHeaderOffset"
  shows "\<exists>fnl lhro lefl.
      read_le_short (buf file) (p0 + 0x1c) = Some fnl
    \<and> read_le_int (buf file) (p0 + 0x2a) = Some lhro
    \<and> read_le_short (buf file) (uint lhro + 0x1c) = Some lefl
    \<and> (r = Inl InvalidDataOffset \<longleftrightarrow>
         \<not> uint (lhro + LFH_SIZE + ucast (ucast fnl :: u16) + ucast (ucast lefl :: u16))
              < int (length (buf file)))"
  using assms unfolding read_central_directory_entry_def Let_def
  by (auto split: if_splits option.splits simp: not_less bind7_Some_iff)

lemma data_offset_mod:
  "uint (lhro + LFH_SIZE + b + c :: u32) = (uint lhro + 30 + uint b + uint c) mod 2 ^ 32"
proof -
  have "lhro + LFH_SIZE + b + c = word_of_int (uint lhro + 30 + uint b + uint c)"
    by (simp add: LFH_SIZE_def)
  then have "uint (lhro + LFH_SIZE + b + c) = take_bit 32 (uint lhro + 30 + uint b + uint c)"
    by (simp only: uint_word_of_int_eq) simp
  then show ?thesis by (simp add: take_bit_eq_mod)
qed

lemma data_offset_fields:
  assumes "read_le_short b i = Some fnl" "read_le_short b j = Some lefl"
  shows "uint (lhro + LFH_SIZE + ucast (ucast fnl :: u16) + ucast (ucast lefl :: u16))
     = (uint lhro + 30 + uint fnl + uint lefl) mod 2 ^ 32"
  using read_le_short_fits [OF assms(1)] read_le_short_fits [OF assms(2)]
  by (simp add: data_offset_mod)

lemma length_wrap_zip: "int (length wrap_zip) = 4294967295"
  by (simp add: wrap_zip_def wrap_head_def wrap_tail_def)

lemma read_byte_wrap_zip:
  "read_byte wrap_zip i =
     (if 0 \<le> i \<and> i < 47 then Some (wrap_head ! nat i)
      else if 47 \<le> i \<and> i < 4294967273 then Some 0
      else if 4294967273 \<le> i \<and> i < 4294967295 then Some (wrap_tail ! nat (i - 4294967273))
      else None)"
proof -
  have lh: "length wrap_head = 47" by (simp add: wrap_head_def)
  have lt: "length wrap_tail = 22" by (simp add: wrap_tail_def)
  have n: "nat i < 47 \<longleftrightarrow> i < 47" "nat i - 47 < 4294967226 \<longleftrightarrow> i < 4294967273"
    "nat i - 47 - 4294967226 = nat (i - 4294967273)"
    "nat i - 4294967273 = nat (i - 4294967273)" if "0 \<le> i"
    using that by auto
  show ?thesis
    unfolding read_byte_def length_wrap_zip
    by (auto simp: wrap_zip_def nth_append lh lt n)
qed

lemma wrap_reads:
  "read_le_int wrap_zip 0 = Some ENTRY_SIGNATURE"
  "read_le_short wrap_zip 10 = Some 0"
  "read_le_int wrap_zip 20 = Some 0"
  "read_le_int wrap_zip 24 = Some 0"
  "read_le_short wrap_zip 28 = Some 1"
  "read_le_short wrap_zip 30 = Some 0"
  "read_le_short wrap_zip 32 = Some 0"
  "read_le_int wrap_zip 42 = Some 0xffffffe1"
  "read_le_short wrap_zip 4294967293 = Some 0"
  by (simp_all add: read_le_int_def read_le_short_def read_byte_wrap_zip wrap_head_def
      wrap_tail_def ENTRY_SIGNATURE_def)

lemma wrap_entry:
  "read_central_directory_entry (zeroed_zipfile wrap_zip) 0 4294967295 =
     Inr (\<lparr>fileNameLength = 1, fileName = 46, compressionMethod = 0, uncompressedSize = 0,
            compressedSize = 0, data = 0\<rparr>, 47, 4294967248)"
  by (simp add: read_central_directory_entry_def zeroed_zipfile_def length_wrap_zip wrap_reads
      zip_consts)

lemma wrap_find_eocd: "find_eocd wrap_zip = Inr 4294967273"
  by (simp add: find_eocd_def length_wrap_zip zip_consts eocd_scan.simps eocd_here_def
      read_byte_wrap_zip read_le_int_def wrap_tail_def)

lemma wrap_eocd_reads:
  "read_le_short wrap_zip 4294967277 = Some 0"
  "read_le_short wrap_zip 4294967279 = Some 0"
  "read_le_short wrap_zip 4294967281 = Some 1"
  "read_le_short wrap_zip 4294967283 = Some 1"
  "read_le_int wrap_zip 4294967285 = Some 47"
  "read_le_int wrap_zip 4294967289 = Some 0"
  by (simp_all add: read_le_int_def read_le_short_def read_byte_wrap_zip wrap_tail_def)

lemma wrap_values:
  "read_central_dir_values (zeroed_zipfile wrap_zip) 4294967273 22 =
     (None, (zeroed_zipfile wrap_zip)\<lparr>entryCount := 1, totalEntryCount := 1, centralDirSize := 47\<rparr>)"
  by (simp add: read_central_dir_values_def zeroed_zipfile_def wrap_eocd_reads wrap_reads zip_consts)

lemma wrap_parse:
  "fst (read_central_dir (zeroed_zipfile wrap_zip)) = None
   \<and> entries (snd (read_central_dir (zeroed_zipfile wrap_zip)))
       = [\<lparr>fileNameLength = 1, fileName = 46, compressionMethod = 0, uncompressedSize = 0,
            compressedSize = 0, data = 0\<rparr>]"
proof -
  let ?f1 = "(zeroed_zipfile wrap_zip)\<lparr>entryCount := 1, totalEntryCount := 1, centralDirSize := 47\<rparr>"
  let ?e = "\<lparr>fileNameLength = 1, fileName = 46, compressionMethod = 0, uncompressedSize = 0,
            compressedSize = 0, data = 0\<rparr>"
  have b: "buf (zeroed_zipfile wrap_zip) = wrap_zip" by (simp add: zeroed_zipfile_def)
  have 1: "find_eocd (buf (zeroed_zipfile wrap_zip)) = Inr 4294967273"
    unfolding b by (rule wrap_find_eocd)
  have 2: "read_central_dir_values (zeroed_zipfile wrap_zip) 4294967273
      (int (length (buf (zeroed_zipfile wrap_zip))) - 4294967273) = (None, ?f1)"
    unfolding b length_wrap_zip using wrap_values by simp
  have 3: "disknum ?f1 = 0" "diskWithCentralDir ?f1 = 0" "entryCount ?f1 = totalEntryCount ?f1"
    by (simp_all add: zeroed_zipfile_def)
  have e: "read_central_directory_entry ?f1 0 4294967295 = Inr (?e, 47, 4294967248)"
    using wrap_entry read_central_directory_entry_buf [of ?f1 "zeroed_zipfile wrap_zip" 0 4294967295]
    by simp
  have 4: "decode_forward ?f1 (uint (centralDirOffest ?f1))
      (int (length (buf (zeroed_zipfile wrap_zip))) - uint (centralDirOffest ?f1))
      (unat (totalEntryCount ?f1)) = ([?e], None)"
    unfolding b length_wrap_zip using e by (simp add: zeroed_zipfile_def)
  from read_central_dir_entries [OF 1 2 3 4] show ?thesis
    by (simp add: zeroed_zipfile_def)
qed

text \<open>
  C6 (as amended). An entry that passes the steps before the test of the data offset
  (it is decoded with success, or fails with \<open>InvalidDataOffset\<close> or
  \<open>InvalidDeclaredSize\<close>) has a readable local header offset, file-name length and, at
  offset 0x1c of the local header, local extra-field length; it fails with
  \<open>InvalidDataOffset\<close> exactly when the sum of the local header offset, 30, the
  file-name length of the central-directory record and the extra-field length of the
  local header, taken modulo 2^32, is not inside the buffer; and when it is decoded with
  success its data offset is that sum modulo 2^32.
\<close>

theorem entry_data_offset:
  assumes "read_central_directory_entry file p len = r"
    and "r \<noteq> Inl Truncated \<and> r \<noteq> Inl OutOfBounds \<and> r \<noteq> Inl BadSignature
         \<and> r \<noteq> Inl MissingFileName \<and> r \<noteq> Inl InvalidLocalHeaderOffset"
  shows "\<exists>lhro fnl lefl.
      read_le_int (buf file) (p + 0x2a) = Some lhro
    \<and> read_le_short (buf file) (p + 0x1c) = Some fnl
    \<and> read_le_short (buf file) (uint lhro + 0x1c) = Some lefl
    \<and> (r = Inl InvalidDataOffset \<longleftrightarrow>
         \<not> (uint lhro + 30 + uint fnl + uint lefl) mod 2 ^ 32 < int (length (buf file)))
    \<and> (\<forall>e p' len'. r = Inr (e, p', len') \<longrightarrow>
         data e = (uint lhro + 30 + uint fnl + uint lefl) mod 2 ^ 32
         \<and> fileNameLength e = ucast fnl)"
proof -
  from read_central_directory_entry_data_check [OF assms(1)] assms(2)
  obtain fnl lhro lefl where
    f: "read_le_short (buf file) (p + 0x1c) = Some fnl"
       "read_le_int (buf file) (p + 0x2a) = Some lhro"
       "read_le_short (buf file) (uint lhro + 0x1c) = Some lefl"
    and i: "r = Inl InvalidDataOffset \<longleftrightarrow>
         \<not> uint (lhro + LFH_SIZE + ucast (ucast fnl :: u16) + ucast (ucast lefl :: u16))
              < int (length (buf file))"
    by blast
  note m = data_offset_fields [OF f(1) f(3), of lhro]
  have "data e = (uint lhro + 30 + uint fnl + uint lefl) mod 2 ^ 32 \<and> fileNameLength e = ucast fnl"
    if "r = Inr (e, p', len')" for e p' len'
  proof -
    from that assms(1)
    have s: "read_central_directory_entry file p len = Inr (e, p', len')" by simp
    from s obtain fnl' lhro' lefl' where
      g: "read_le_short (buf file) (p + 0x1c) = Some fnl'"
         "read_le_int (buf file) (p + 0x2a) = Some lhro'"
         "read_le_short (buf file) (uint lhro' + 0x1c) = Some lefl'"
         "fileNameLength e = ucast fnl'"
         "data e = uint (lhro' + LFH_SIZE + ucast (ucast fnl' :: u16) + ucast (ucast lefl' :: u16))"
      by (elim read_central_directory_entry_InrE) simp
    from f g(1,2) have "fnl' = fnl" "lhro' = lhro" by simp_all
    with f g(3) have "lefl' = lefl" by simp
    with g m \<open>fnl' = fnl\<close> \<open>lhro' = lhro\<close> show ?thesis by simp
  qed
  then have d: "\<forall>e p' len'. r = Inr (e, p', len') \<longrightarrow>
         data e = (uint lhro + 30 + uint fnl + uint lefl) mod 2 ^ 32
         \<and> fileNameLength e = ucast fnl" by blast
  have "r = Inl InvalidDataOffset \<longleftrightarrow>
         \<not> (uint lhro + 30 + uint fnl + uint lefl) mod 2 ^ 32 < int (length (buf file))"
    using i unfolding m .
  with f d show ?thesis by blast
qed

theorem entry_data_offset_witness:
  "read_central_directory_entry (zeroed_zipfile two_entry_zip) 85 124
       = Inr (\<lparr>fileNameLength = 5, fileName = 131, compressionMethod = 0, uncompressedSize = 5,
                compressedSize = 5, data = 35\<rparr>, 136, 73)
   \<and> read_le_int two_entry_zip (85 + 0x2a) = Some 0
   \<and> read_le_short two_entry_zip (85 + 0x1c) = Some 5
   \<and> read_le_short two_entry_zip (0 + 0x1c) = Some 0
   \<and> (35 :: int) = (0 + 30 + 5 + 0) mod 2 ^ 32"
proof -
  have b: "buf (zeroed_zipfile two_entry_zip) = two_entry_zip"
    by (simp add: zeroed_zipfile_def)
  have 1: "read_central_directory_entry (zeroed_zipfile two_entry_zip) 85 124
       = Inr (\<lparr>fileNameLength = 5, fileName = 131, compressionMethod = 0, uncompressedSize = 5,
                compressedSize = 5, data = 35\<rparr>, 136, 73)" by code_simp
  have 2: "read_le_int two_entry_zip (85 + 0x2a) = Some 0"
    "read_le_short two_entry_zip (85 + 0x1c) = Some 5"
    "read_le_short two_entry_zip (0 + 0x1c) = Some 0"
    by code_simp+
  from entry_data_offset [OF 1] obtain lhro fnl lefl where
    "read_le_int two_entry_zip (85 + 0x2a) = Some lhro"
    "read_le_short two_entry_zip (85 + 0x1c) = Some fnl"
    "read_le_short two_entry_zip (uint lhro + 0x1c) = Some lefl"
    "(35 :: int) = (uint lhro + 30 + uint fnl + uint lefl) mod 2 ^ 32"
    unfolding b by auto
  with 2 have "(35 :: int) = (0 + 30 + 5 + 0) mod 2 ^ 32" by simp
  with 1 2 show ?thesis by blast
qed

theorem entry_data_offset_counterexample:
  "fst (read_central_dir (zeroed_zipfile wrap_zip)) = None
   \<and> entries (snd (read_central_dir (zeroed_zipfile wrap_zip)))
       = [\<lparr>fileNameLength = 1, fileName = 46, compressionMethod = 0, uncompressedSize = 0,
            compressedSize = 0, data = 0\<rparr>]
   \<and> read_central_directory_entry (zeroed_zipfile wrap_zip) 0 (int (length wrap_zip))
       = Inr (\<lparr>fileNameLength = 1, fileName = 46, compressionMethod = 0, uncompressedSize = 0,
                compressedSize = 0, data = 0\<rparr>, 47, 4294967248)
   \<and> read_le_int wrap_zip (0 + 0x2a) = Some 0xffffffe1
   \<and> read_le_short wrap_zip (0 + 0x1c) = Some 1
   \<and> read_le_short wrap_zip (0xffffffe1 + 0x1c) = Some 0
   \<and> (0 :: int) \<noteq> 0xffffffe1 + 30 + 1 + 0
   \<and> \<not> (0xffffffe1 + 30 + 1 + 0 < int (length wrap_zip))"
  using wrap_parse wrap_entry wrap_reads by (simp add: length_wrap_zip)

text \<open>
  C10. The data offset is computed in unsigned 32-bit arithmetic: the offset stored in a
  decoded entry is the sum of the local header offset, 30, the file-name length and the
  local extra-field length modulo 2^32, and it is this value that is inside the buffer.
  There is an input whose sum is at least 2^32, and not inside the buffer, that is
  decoded with success, with the sum less 2^32 as its data offset.
\<close>

theorem data_offset_wraps:
  "(\<forall>file p len e p' len'. read_central_directory_entry file p len = Inr (e, p', len') \<longrightarrow>
      (\<exists>lhro lefl. read_le_int (buf file) (p + 0x2a) = Some lhro
         \<and> read_le_short (buf file) (uint lhro + 0x1c) = Some lefl
         \<and> data e = (uint lhro + 30 + uint (fileNameLength e) + uint lefl) mod 2 ^ 32
         \<and> data e < int (length (buf file))))
   \<and> (\<exists>file p len e p' len' lhro lefl.
         read_central_directory_entry file p len = Inr (e, p', len')
       \<and> read_le_int (buf file) (p + 0x2a) = Some lhro
       \<and> read_le_short (buf file) (uint lhro + 0x1c) = Some lefl
       \<and> 2 ^ 32 \<le> uint lhro + 30 + uint (fileNameLength e) + uint lefl
       \<and> int (length (buf file)) \<le> uint lhro + 30 + uint (fileNameLength e) + uint lefl
       \<and> data e = uint lhro + 30 + uint (fileNameLength e) + uint lefl - 2 ^ 32)"
proof (intro conjI allI impI)
  fix zf p len e p' len'
  assume a: "read_central_directory_entry zf p len = Inr (e, p', len')"
  then obtain fnl lhro lefl where
    f: "read_le_short (buf zf) (p + 0x1c) = Some fnl"
       "read_le_int (buf zf) (p + 0x2a) = Some lhro"
       "read_le_short (buf zf) (uint lhro + 0x1c) = Some lefl"
       "fileNameLength e = ucast fnl"
       "data e = uint (lhro + LFH_SIZE + ucast (ucast fnl :: u16) + ucast (ucast lefl :: u16))"
    by (elim read_central_directory_entry_InrE) simp
  have "uint (fileNameLength e) = uint fnl"
    using read_le_short_uint [OF f(1)] f(4) by simp
  with f data_offset_fields [OF f(1) f(3), of lhro] entry_data_in_buffer(2) [OF a]
  show "\<exists>lhro lefl. read_le_int (buf zf) (p + 0x2a) = Some lhro
         \<and> read_le_short (buf zf) (uint lhro + 0x1c) = Some lefl
         \<and> data e = (uint lhro + 30 + uint (fileNameLength e) + uint lefl) mod 2 ^ 32
         \<and> data e < int (length (buf zf))"
    by auto
next
  let ?e = "\<lparr>fileNameLength = 1, fileName = 46, compressionMethod = 0, uncompressedSize = 0,
                compressedSize = 0, data = 0\<rparr>"
  have b: "buf (zeroed_zipfile wrap_zip) = wrap_zip" by (simp add: zeroed_zipfile_def)
  have "read_central_directory_entry (zeroed_zipfile wrap_zip) 0 4294967295 = Inr (?e, 47, 4294967248)
       \<and> read_le_int (buf (zeroed_zipfile wrap_zip)) (0 + 0x2a) = Some 0xffffffe1
       \<and> read_le_short (buf (zeroed_zipfile wrap_zip)) (uint (0xffffffe1 :: u32) + 0x1c) = Some 0
       \<and> 2 ^ 32 \<le> uint (0xffffffe1 :: u32) + 30 + uint (fileNameLength ?e) + uint (0 :: u32)
       \<and> int (length (buf (zeroed_zipfile wrap_zip)))
            \<le> uint (0xffffffe1 :: u32) + 30 + uint (fileNameLength ?e) + uint (0 :: u32)
       \<and> data ?e = uint (0xffffffe1 :: u32) + 30 + uint (fileNameLength ?e) + uint (0 :: u32) - 2 ^ 32"
    using wrap_entry wrap_reads by (simp add: b length_wrap_zip)
  then show "\<exists>file p len e p' len' lhro lefl.
         read_central_directory_entry file p len = Inr (e, p', len')
       \<and> read_le_int (buf file) (p + 0x2a) = Some lhro
       \<and> read_le_short (buf file) (uint lhro + 0x1c) = Some lefl
       \<and> 2 ^ 32 \<le> uint lhro + 30 + uint (fileNameLength e) + uint lefl
       \<and> int (length (buf file)) \<le> uint lhro + 30 + uint (fileNameLength e) + uint lefl
       \<and> data e = uint lhro + 30 + uint (fileNameLength e) + uint lefl - 2 ^ 32"
    by blast
qed

theorem data_offset_wraps_witness:
  "read_central_directory_entry (zeroed_zipfile wrap_zip) 0 4294967295
       = Inr (\<lparr>fileNameLength = 1, fileName = 46, compressionMethod = 0, uncompressedSize = 0,
                compressedSize = 0, data = 0\<rparr>, 47, 4294967248)
   \<and> read_le_int wrap_zip 42 = Some 0xffffffe1
   \<and> read_le_short wrap_zip 4294967293 = Some 0
   \<and> (0 :: int) = (4294967265 + 30 + 1 + 0) mod 2 ^ 32
   \<and> (0 :: int) < int (length wrap_zip)"
proof -
  have b: "buf (zeroed_zipfile wrap_zip) = wrap_zip" by (simp add: zeroed_zipfile_def)
  from data_offset_wraps
  have "\<forall>file p len e p' len'. read_central_directory_entry file p len = Inr (e, p', len') \<longrightarrow>
      (\<exists>lhro lefl. read_le_int (buf file) (p + 0x2a) = Some lhro
         \<and> read_le_short (buf file) (uint lhro + 0x1c) = Some lefl
         \<and> data e = (uint lhro + 30 + uint (fileNameLength e) + uint lefl) mod 2 ^ 32
         \<and> data e < int (length (buf file)))"
    by (rule conjunct1)
  from this [rule_format, OF wrap_entry] obtain lhro lefl where
    "read_le_int wrap_zip (0 + 0x2a) = Some lhro"
    "read_le_short wrap_zip (uint lhro + 0x1c) = Some lefl"
    "(0 :: int) = (uint lhro + 30 + uint (1 :: u16) + uint lefl) mod 2 ^ 32"
    "(0 :: int) < int (length wrap_zip)"
    unfolding b by auto
  with wrap_reads have "(0 :: int) = (4294967265 + 30 + 1 + 0) mod 2 ^ 32"
    "(0 :: int) < int (length wrap_zip)" by simp_all
  with wrap_entry wrap_reads show ?thesis by simp
qed

subsection \<open>Removing the last byte\<close>

lemma read_byte_butlast:
  "i < int (length b) - 1 \<Longrightarrow> read_byte (butlast b) i = read_byte b i"
  by (auto simp: read_byte_def nth_butlast)

lemma read_le_int_butlast:
  "p + 4 \<le> int (length b) - 1 \<Longrightarrow> read_le_int (butlast b) p = read_le_int b p"
  by (simp add: read_le_int_def read_byte_butlast)

lemma read_le_short_butlast:
  "p + 2 \<le> int (length b) - 1 \<Longrightarrow> read_le_short (butlast b) p = read_le_short b p"
  by (simp add: read_le_short_def read_byte_butlast)

lemma sig_at_butlast:
  "p + 4 \<le> int (length b) - 1 \<Longrightarrow> sig_at (butlast b) p = sig_at b p"
  by (simp add: sig_at_def read_le_int_butlast)

lemma window_start_butlast: "window_start (butlast b) \<le> window_start b"
  by (auto simp: window_start_def)

lemma find_eocd_butlast:
  assumes "find_eocd b = Inr e" "e + 22 \<le> int (length b)" "23 \<le> int (length b)"
  shows "find_eocd (butlast b) = Inr e"
proof -
  from assms(1) have f: "window_start b \<le> e" "sig_at b e"
    "\<forall>p. e < p \<and> p \<le> int (length b) - 4 \<longrightarrow> \<not> sig_at b p"
    by (simp_all add: find_eocd_Inr_iff)
  have l: "int (length (butlast b)) = int (length b) - 1"
    using assms(3) by simp
  have "sig_at (butlast b) e"
    using f(2) assms(2) by (simp add: sig_at_butlast)
  moreover have "\<not> sig_at (butlast b) p" if "e < p \<and> p \<le> int (length (butlast b)) - 4" for p
    using that f(3) l by (simp add: sig_at_butlast)
  moreover have "window_start (butlast b) \<le> e"
    using window_start_butlast [of b] f(1) by simp
  ultimately show ?thesis
    using assms(2,3) l by (simp add: find_eocd_Inr_iff)
qed

lemma read_central_dir_values_NoneE:
  assumes "read_central_dir_values file eocd len = (None, file1)"
  obtains dn dw ec tec cds cdo cl where
    "22 \<le> len"
    "read_le_short (buf file) (eocd + 0x04) = Some dn"
    "read_le_short (buf file) (eocd + 0x06) = Some dw"
    "read_le_short (buf file) (eocd + 0x08) = Some ec"
    "read_le_short (buf file) (eocd + 0x0a) = Some tec"
    "read_le_int (buf file) (eocd + 0x0c) = Some cds"
    "read_le_int (buf file) (eocd + 0x10) = Some cdo"
    "read_le_short (buf file) (eocd + 0x14) = Some cl"
    "commentLen file1 = ucast cl"
    "22 + uint (commentLen file1) \<le> len"
proof -
  from assms have "\<exists>dn dw ec tec cds cdo cl.
      22 \<le> len
    \<and> read_le_short (buf file) (eocd + 0x04) = Some dn
    \<and> read_le_short (buf file) (eocd + 0x06) = Some dw
    \<and> read_le_short (buf file) (eocd + 0x08) = Some ec
    \<and> read_le_short (buf file) (eocd + 0x0a) = Some tec
    \<and> read_le_int (buf file) (eocd + 0x0c) = Some cds
    \<and> read_le_int (buf file) (eocd + 0x10) = Some cdo
    \<and> read_le_short (buf file) (eocd + 0x14) = Some cl
    \<and> commentLen file1 = ucast cl
    \<and> 22 + uint (commentLen file1) \<le> len"
    by (auto simp: read_central_dir_values_def Let_def bind7_Some_iff EOCD_LEN_def
        word_greater_zero_iff split: if_splits option.splits)
  then show thesis by (elim exE conjE) (rule that; assumption)
qed

lemma read_central_dir_values_comment_too_long:
  assumes "read_le_short (buf file) (eocd + 0x04) = Some dn"
    "read_le_short (buf file) (eocd + 0x06) = Some dw"
    "read_le_short (buf file) (eocd + 0x08) = Some ec"
    "read_le_short (buf file) (eocd + 0x0a) = Some tec"
    "read_le_int (buf file) (eocd + 0x0c) = Some cds"
    "read_le_int (buf file) (eocd + 0x10) = Some cdo"
    "read_le_short (buf file) (eocd + 0x14) = Some cl"
    and "len < 22 + uint (ucast cl :: u16)"
  shows "fst (read_central_dir_values file eocd len) = Some Truncated"
proof (cases "len < 22")
  case True
  then show ?thesis by (simp add: read_central_dir_values_def EOCD_LEN_def)
next
  case False
  with assms(8) have "0 < uint (ucast cl :: u16)" by simp
  then have "(ucast cl :: u16) \<noteq> 0" by auto
  with False assms show ?thesis
    by (simp add: read_central_dir_values_def EOCD_LEN_def Let_def word_greater_zero_iff)
qed

text \<open>
  C8 (as amended). When the parse of a buffer succeeds and the end-of-central-directory
  record that was found, with the comment it declares, ends exactly at the end of the
  buffer, the parse of the buffer without its last byte fails: with \<open>NotAZip\<close> when the
  buffer has 22 bytes, with \<open>Truncated\<close> otherwise.
\<close>

theorem truncated_archive_rejected:
  assumes "read_central_dir file = (None, file')"
    and "find_eocd (buf file) = Inr eocd"
    and "eocd + 22 + uint (commentLen file') = int (length (buf file))"
  shows "fst (read_central_dir (file\<lparr>buf := butlast (buf file)\<rparr>))
     = Some (if int (length (buf file)) = 22 then NotAZip else Truncated)"
proof -
  let ?b = "buf file"
  let ?file2 = "file\<lparr>buf := butlast ?b\<rparr>"
  from assms(1) obtain eocd' file1 es where
    s: "find_eocd ?b = Inr eocd'"
       "read_central_dir_values file eocd' (int (length ?b) - eocd') = (None, file1)"
       "file' = file1\<lparr>entries := rev es @ entries file\<rparr>"
    by (rule read_central_dir_success)
  from s(1) assms(2) have e: "eocd' = eocd" by simp
  from s(3) have c: "commentLen file' = commentLen file1" by simp
  from s(2) [unfolded e] obtain dn dw ec tec cds cdo cl where
    v: "read_le_short ?b (eocd + 0x04) = Some dn"
       "read_le_short ?b (eocd + 0x06) = Some dw"
       "read_le_short ?b (eocd + 0x08) = Some ec"
       "read_le_short ?b (eocd + 0x0a) = Some tec"
       "read_le_int ?b (eocd + 0x0c) = Some cds"
       "read_le_int ?b (eocd + 0x10) = Some cdo"
       "read_le_short ?b (eocd + 0x14) = Some cl"
       "commentLen file1 = ucast cl"
    by (rule read_central_dir_values_NoneE)
  have e0: "0 \<le> eocd"
    using assms(2) window_start_bounds(1) [of ?b] by (simp add: find_eocd_Inr_iff)
  have b2: "buf ?file2 = butlast ?b" by simp
  show ?thesis
  proof (cases "int (length ?b) = 22")
    case True
    then have "find_eocd (buf ?file2) = Inl NotAZip"
      by (simp add: find_eocd_short)
    then show ?thesis
      using True by (simp add: read_central_dir_find_fails del: Zipfile.simps)
  next
    case False
    with assms(3) e0 uint_ge_0 [of "commentLen file'"]
    have l: "23 \<le> int (length ?b)" by linarith
    have l2: "int (length (butlast ?b)) = int (length ?b) - 1" using l by simp
    have "eocd + 22 \<le> int (length ?b)"
      using assms(3) uint_ge_0 [of "commentLen file'"] by linarith
    with assms(2) l have f2: "find_eocd (buf ?file2) = Inr eocd"
      unfolding b2 by (intro find_eocd_butlast)
    have t: "fst (read_central_dir_values ?file2 eocd (int (length (buf ?file2)) - eocd))
        = Some Truncated"
    proof (cases "uint (commentLen file') = 0")
      case True
      with assms(3) have "int (length (buf ?file2)) - eocd < 22"
        unfolding b2 l2 by simp
      then show ?thesis by (simp add: read_central_dir_values_def EOCD_LEN_def)
    next
      case False
      with assms(3) uint_ge_0 [of "commentLen file'"]
      have r: "eocd + 22 \<le> int (length ?b) - 1" by linarith
      have "int (length (buf ?file2)) - eocd < 22 + uint (ucast cl :: u16)"
        unfolding b2 l2 using assms(3) c v(8) by simp
      moreover
      from r v have "read_le_short (buf ?file2) (eocd + 0x04) = Some dn"
        "read_le_short (buf ?file2) (eocd + 0x06) = Some dw"
        "read_le_short (buf ?file2) (eocd + 0x08) = Some ec"
        "read_le_short (buf ?file2) (eocd + 0x0a) = Some tec"
        "read_le_int (buf ?file2) (eocd + 0x0c) = Some cds"
        "read_le_int (buf ?file2) (eocd + 0x10) = Some cdo"
        "read_le_short (buf ?file2) (eocd + 0x14) = Some cl"
        unfolding b2 by (simp_all add: read_le_short_butlast read_le_int_butlast)
      ultimately show ?thesis
        by (intro read_central_dir_values_comment_too_long)
    qed
    obtain f3 where "read_central_dir_values ?file2 eocd (int (length (buf ?file2)) - eocd)
        = (Some Truncated, f3)"
      using t by (cases "read_central_dir_values ?file2 eocd (int (length (buf ?file2)) - eocd)") auto
    from read_central_dir_values_fails [OF f2 this] False show ?thesis by simp
  qed
qed

theorem truncated_archive_rejected_witness:
  "fst (read_central_dir (zeroed_zipfile two_entry_zip)) = None
   \<and> find_eocd two_entry_zip = Inr 187
   \<and> int (length two_entry_zip) = 187 + 22 + 0
   \<and> fst (read_central_dir (zeroed_zipfile (butlast two_entry_zip))) = Some Truncated"
proof -
  let ?r = "read_central_dir (zeroed_zipfile two_entry_zip)"
  have b: "buf (zeroed_zipfile two_entry_zip) = two_entry_zip"
    by (simp add: zeroed_zipfile_def)
  have l: "int (length two_entry_zip) = 209" by (simp add: two_entry_zip_def)
  have 0: "fst ?r = None" by code_simp
  then have 1: "?r = (None, snd ?r)" by (simp add: prod_eq_iff)
  have 2: "find_eocd (buf (zeroed_zipfile two_entry_zip)) = Inr 187"
    unfolding b by code_simp
  have "uint (commentLen (snd ?r)) = 0" by code_simp
  then have 3: "187 + 22 + uint (commentLen (snd ?r)) = int (length (buf (zeroed_zipfile two_entry_zip)))"
    unfolding b l by simp
  have z: "(zeroed_zipfile two_entry_zip)\<lparr>buf := butlast two_entry_zip\<rparr>
      = zeroed_zipfile (butlast two_entry_zip)"
    by (simp add: zeroed_zipfile_def)
  from truncated_archive_rejected [OF 1 2 3]
  have "fst (read_central_dir (zeroed_zipfile (butlast two_entry_zip))) = Some Truncated"
    unfolding b z l by simp
  with 0 2 l show ?thesis unfolding b by simp
qed

theorem truncated_archive_counterexample:
  "fst (read_central_dir (zeroed_zipfile trailing_byte_zip)) = None
   \<and> fst (read_central_dir (zeroed_zipfile (butlast trailing_byte_zip))) = None"
  by code_simp

subsection \<open>Well-formed archives\<close>

lemma uint_byte_bounds: "0 \<le> uint (x :: byte)" "uint (x :: byte) < 256"
  using uint_lt2p [of x] by simp_all

lemma uint_le_short:
  "uint (ucast (b0::byte) OR push_bit 8 (ucast (b1::byte)) :: u32) = uint b0 + 256 * uint b1"
proof -
  have d: "(ucast b0 AND push_bit 8 (ucast b1) :: u32) = 0"
    by (rule bit_word_eqI) (auto simp: bit_simps dest: bit_imp_le_length)
  have u: "uint (ucast b0 :: u32) = uint b0" "uint (ucast b1 :: u32) = uint b1"
    by (simp_all add: uint_up_ucast is_up)
  have "(ucast b0 OR push_bit 8 (ucast b1) :: u32) = ucast b0 + ucast b1 * 256"
    using disjunctive_add_eq_or [OF d] by (simp add: push_bit_eq_mult)
  then show ?thesis
    using uint_byte_bounds [of b0] uint_byte_bounds [of b1]
    by (simp add: uint_word_ariths u)
qed

lemma uint_le_int:
  "uint (ucast (b0::byte) OR push_bit 8 (ucast (b1::byte)) OR push_bit 16 (ucast (b2::byte))
       OR push_bit 24 (ucast (b3::byte)) :: u32)
     = uint b0 + 256 * uint b1 + 65536 * uint b2 + 16777216 * uint b3"
proof -
  have d1: "(ucast b0 AND push_bit 8 (ucast b1) :: u32) = 0"
    by (rule bit_word_eqI) (auto simp: bit_simps dest: bit_imp_le_length)
  have d2: "((ucast b0 OR push_bit 8 (ucast b1)) AND push_bit 16 (ucast b2) :: u32) = 0"
    by (rule bit_word_eqI) (auto simp: bit_simps dest: bit_imp_le_length)
  have d3: "((ucast b0 OR push_bit 8 (ucast b1) OR push_bit 16 (ucast b2))
       AND push_bit 24 (ucast b3) :: u32) = 0"
    by (rule bit_word_eqI) (auto simp: bit_simps dest: bit_imp_le_length)
  have u: "uint (ucast b0 :: u32) = uint b0" "uint (ucast b1 :: u32) = uint b1"
    "uint (ucast b2 :: u32) = uint b2" "uint (ucast b3 :: u32) = uint b3"
    by (simp_all add: uint_up_ucast is_up)
  have "(ucast b0 OR push_bit 8 (ucast b1) OR push_bit 16 (ucast b2)
       OR push_bit 24 (ucast b3) :: u32)
      = ucast b0 + ucast b1 * 256 + ucast b2 * 65536 + ucast b3 * 16777216"
    using disjunctive_add_eq_or [OF d1] disjunctive_add_eq_or [OF d2] disjunctive_add_eq_or [OF d3]
    by (simp add: push_bit_eq_mult or.assoc)
  then show ?thesis
    using uint_byte_bounds [of b0] uint_byte_bounds [of b1] uint_byte_bounds [of b2]
      uint_byte_bounds [of b3]
    by (simp add: uint_word_ariths u)
qed

lemma read_le_short_le16:
  assumes "0 \<le> i" "i + 2 \<le> int (length b)"
  shows "\<exists>v. read_le_short b i = Some v \<and> uint v = le16 b i"
  using assms by (simp add: read_le_short_def read_byte_def le16_def uint_le_short)

lemma read_le_int_le32:
  assumes "0 \<le> i" "i + 4 \<le> int (length b)"
  shows "\<exists>v. read_le_int b i = Some v \<and> uint v = le32 b i"
  using assms by (simp add: read_le_int_def read_byte_def le32_def uint_le_int)

lemma u32_of_int_le:
  assumes "uint w \<le> k" "k < 2 ^ 32"
  shows "\<not> (word_of_int k :: u32) < w"
proof -
  have "0 \<le> k" using assms(1) uint_ge_0 [of w] by linarith
  then have "uint (word_of_int k :: u32) = k"
    using assms(2) by (simp add: uint_word_of_int_eq take_bit_eq_mod)
  with assms(1) show ?thesis by (simp add: word_less_def)
qed

lemma read_central_directory_entry_ok:
  assumes len0: "46 \<le> len0"
    and sg: "read_le_int (buf file) p0 = Some ENTRY_SIGNATURE"
    and cm: "read_le_short (buf file) (p0 + 0x0a) = Some cm"
    and cs: "read_le_int (buf file) (p0 + 0x14) = Some cs"
    and us: "read_le_int (buf file) (p0 + 0x18) = Some us"
    and fnl: "read_le_short (buf file) (p0 + 0x1c) = Some fnl"
    and efl: "read_le_short (buf file) (p0 + 0x1e) = Some efl"
    and fcl: "read_le_short (buf file) (p0 + 0x20) = Some fcl"
    and lhro: "read_le_int (buf file) (p0 + 0x2a) = Some lhro"
    and lefl: "read_le_short (buf file) (uint lhro + 0x1c) = Some lefl"
    and name: "0 < uint fnl"
    and fits: "uint fnl + uint efl + uint fcl \<le> len0 - 46"
    and lh: "uint lhro < int (length (buf file))"
    and d: "d = uint lhro + 30 + uint fnl + uint lefl" "d < int (length (buf file))" "d < 2 ^ 32"
    and small: "int (length (buf file)) - d < 2 ^ 32"
    and stored: "uint cm = 0 \<longrightarrow> uint us \<le> int (length (buf file)) - d"
    and deflate: "uint cm = 8 \<longrightarrow> uint cs \<le> int (length (buf file)) - d"
  shows "read_central_directory_entry file p0 len0 =
     Inr (\<lparr>fileNameLength = ucast fnl, fileName = p0 + 46, compressionMethod = ucast cm,
            uncompressedSize = us, compressedSize = cs, data = d\<rparr>,
          p0 + 46 + uint fnl + uint efl + uint fcl,
          len0 - 46 - uint fnl - uint efl - uint fcl)"
proof -
  note u = read_le_short_uint [OF fnl] read_le_short_uint [OF efl] read_le_short_uint [OF fcl]
    read_le_short_uint [OF cm]
  have nz: "(ucast fnl :: u16) \<noteq> 0"
    using name u(1) uint_0_iff [of "ucast fnl :: u16"] by simp
  have dd: "uint (lhro + LFH_SIZE + ucast (ucast fnl :: u16) + ucast (ucast lefl :: u16)) = d"
    using data_offset_fields [OF fnl lefl, of lhro] d uint_ge_0 [of lhro] uint_ge_0 [of fnl]
      uint_ge_0 [of lefl]
    by simp
  have st: "\<not> ((ucast cm :: u16) = kCompressionStored
      \<and> (word_of_int (int (length (buf file)) - d) :: u32) < us)"
  proof
    assume a: "(ucast cm :: u16) = kCompressionStored
      \<and> (word_of_int (int (length (buf file)) - d) :: u32) < us"
    then have "uint (ucast cm :: u16) = 0" by (simp add: kCompressionStored_def)
    with u(4) stored have "uint us \<le> int (length (buf file)) - d" by simp
    from u32_of_int_le [OF this small] a show False by simp
  qed
  have de: "\<not> ((ucast cm :: u16) = kCompressionDeflate
      \<and> (word_of_int (int (length (buf file)) - d) :: u32) < cs)"
  proof
    assume a: "(ucast cm :: u16) = kCompressionDeflate
      \<and> (word_of_int (int (length (buf file)) - d) :: u32) < cs"
    then have "uint (ucast cm :: u16) = 8" by (simp add: kCompressionDeflate_def)
    with u(4) deflate have "uint cs \<le> int (length (buf file)) - d" by simp
    from u32_of_int_le [OF this small] a show False by simp
  qed
  have f: "\<not> len0 - 46 < uint fnl" "\<not> len0 - 46 - uint fnl < uint efl"
    "\<not> len0 - 46 - uint fnl - uint efl < uint fcl"
    using fits uint_ge_0 [of fnl] uint_ge_0 [of efl] uint_ge_0 [of fcl] by linarith+
  have d0: "\<not> d < 0"
    using d(1) uint_ge_0 [of lhro] uint_ge_0 [of fnl] uint_ge_0 [of lefl] by linarith
  show ?thesis
    unfolding read_central_directory_entry_def Let_def
    using len0 nz f lh dd d(2) d0 st de
    by (simp add: sg cm cs us fnl efl fcl lhro lefl u ENTRY_LEN_def)
qed

lemma le16_bounds: "0 \<le> le16 b i" "le16 b i < 65536"
  using uint_byte_bounds [of "b ! nat i"] uint_byte_bounds [of "b ! nat (i + 1)"]
  by (simp_all add: le16_def)

lemma le32_bounds: "0 \<le> le32 b i" "le32 b i < 2 ^ 32"
  using uint_byte_bounds [of "b ! nat i"] uint_byte_bounds [of "b ! nat (i + 1)"]
    uint_byte_bounds [of "b ! nat (i + 2)"] uint_byte_bounds [of "b ! nat (i + 3)"]
  by (simp_all add: le32_def)

lemma read_le_int_signature:
  assumes "0 \<le> i" "i + 4 \<le> int (length b)" "le32 b i = uint w"
  shows "read_le_int b i = Some w"
proof -
  from read_le_int_le32 [OF assms(1,2)] obtain v where
    v: "read_le_int b i = Some v" "uint v = le32 b i" by blast
  with assms(3) have "v = w" by (simp add: word_uint_eq_iff)
  with v show ?thesis by simp
qed

lemma record_decodes:
  assumes b: "buf file = b"
    and ok: "cd_record_ok b cdo e q"
    and lim: "cdo \<le> e" "e < int (length b)" "int (length b) < 2 ^ 32"
  shows "read_central_directory_entry file q (int (length b) - q) =
     Inr (cd_entry b q, cd_record_next b q, int (length b) - cd_record_next b q)"
proof -
  from ok have q: "0 \<le> q" "q + 46 \<le> e"
    and sig: "le32 b q = 0x02014b50"
    and name: "0 < le16 b (q + 28)"
    and nxt: "cd_record_next b q \<le> e"
    and lh: "le32 b (q + 42) + 30 \<le> cdo"
    and pay: "cd_data_start b q + le32 b (q + 20) \<le> cdo"
    and st: "le16 b (q + 10) = 0 \<longrightarrow> le32 b (q + 24) = le32 b (q + 20)"
    by (simp_all add: cd_record_ok_def)
  have sg: "read_le_int (buf file) q = Some ENTRY_SIGNATURE"
    unfolding b using q lim sig
    by (intro read_le_int_signature) (simp_all add: ENTRY_SIGNATURE_def)
  obtain cm where cm: "read_le_short (buf file) (q + 0x0a) = Some cm" "uint cm = le16 b (q + 10)"
    unfolding b using read_le_short_le16 [of "q + 10" b] q lim by auto
  obtain cs where cs: "read_le_int (buf file) (q + 0x14) = Some cs" "uint cs = le32 b (q + 20)"
    unfolding b using read_le_int_le32 [of "q + 20" b] q lim by auto
  obtain us where us: "read_le_int (buf file) (q + 0x18) = Some us" "uint us = le32 b (q + 24)"
    unfolding b using read_le_int_le32 [of "q + 24" b] q lim by auto
  obtain fnl where fnl: "read_le_short (buf file) (q + 0x1c) = Some fnl" "uint fnl = le16 b (q + 28)"
    unfolding b using read_le_short_le16 [of "q + 28" b] q lim by auto
  obtain efl where efl: "read_le_short (buf file) (q + 0x1e) = Some efl" "uint efl = le16 b (q + 30)"
    unfolding b using read_le_short_le16 [of "q + 30" b] q lim by auto
  obtain fcl where fcl: "read_le_short (buf file) (q + 0x20) = Some fcl" "uint fcl = le16 b (q + 32)"
    unfolding b using read_le_short_le16 [of "q + 32" b] q lim by auto
  obtain lhro where lhro: "read_le_int (buf file) (q + 0x2a) = Some lhro"
      "uint lhro = le32 b (q + 42)"
    unfolding b using read_le_int_le32 [of "q + 42" b] q lim by auto
  obtain lefl where lefl: "read_le_short (buf file) (uint lhro + 0x1c) = Some lefl"
      "uint lefl = le16 b (le32 b (q + 42) + 28)"
    unfolding b lhro(2)
    using read_le_short_le16 [of "le32 b (q + 42) + 28" b] le32_bounds(1) [of b "q + 42"] lh lim
    by auto
  let ?d = "cd_data_start b q"
  have d: "?d = uint lhro + 30 + uint fnl + uint lefl"
    by (simp add: cd_data_start_def lhro fnl lefl)
  have dl: "?d \<le> cdo" using pay le32_bounds(1) [of b "q + 20"] by linarith
  have d0: "0 \<le> ?d"
    using le32_bounds(1) [of b "q + 42"] le16_bounds(1) [of b "q + 28"]
      le16_bounds(1) [of b "le32 b (q + 42) + 28"]
    by (simp add: cd_data_start_def)
  have r: "read_central_directory_entry file q (int (length b) - q) =
     Inr (\<lparr>fileNameLength = ucast fnl, fileName = q + 46, compressionMethod = ucast cm,
            uncompressedSize = us, compressedSize = cs, data = ?d\<rparr>,
          q + 46 + uint fnl + uint efl + uint fcl,
          int (length b) - q - 46 - uint fnl - uint efl - uint fcl)"
  proof (rule read_central_directory_entry_ok [OF _ sg cm(1) cs(1) us(1) fnl(1) efl(1) fcl(1)
        lhro(1) lefl(1) _ _ _ d])
    show "46 \<le> int (length b) - q" using q lim by linarith
    show "0 < uint fnl" using name fnl(2) by simp
    show "uint fnl + uint efl + uint fcl \<le> int (length b) - q - 46"
      using nxt lim by (simp add: cd_record_next_def fnl efl fcl)
    show "uint lhro < int (length (buf file))"
      unfolding b lhro(2) using lh lim by linarith
    show "?d < int (length (buf file))" unfolding b using dl lim by linarith
    show "?d < 2 ^ 32" using dl lim by linarith
    show "int (length (buf file)) - ?d < 2 ^ 32" unfolding b using d0 lim by linarith
    show "uint cm = 0 \<longrightarrow> uint us \<le> int (length (buf file)) - ?d"
      unfolding b using st pay lim by (auto simp: cm us)
    show "uint cm = 8 \<longrightarrow> uint cs \<le> int (length (buf file)) - ?d"
      unfolding b using pay lim by (auto simp: cs)
  qed
  have e: "cd_entry b q = \<lparr>fileNameLength = ucast fnl, fileName = q + 46,
      compressionMethod = ucast cm, uncompressedSize = us, compressedSize = cs, data = ?d\<rparr>"
  proof -
    have "(word_of_int (le16 b (q + 28)) :: u16) = ucast fnl"
      unfolding fnl(2) [symmetric] by (rule ucast_eq [symmetric])
    moreover have "(word_of_int (le16 b (q + 10)) :: u16) = ucast cm"
      unfolding cm(2) [symmetric] by (rule ucast_eq [symmetric])
    moreover have "(word_of_int (le32 b (q + 24)) :: u32) = us"
      unfolding us(2) [symmetric] by (rule word_of_int_uint)
    moreover have "(word_of_int (le32 b (q + 20)) :: u32) = cs"
      unfolding cs(2) [symmetric] by (rule word_of_int_uint)
    ultimately show ?thesis by (simp only: cd_entry_def)
  qed
  show ?thesis
    unfolding r e by (simp add: cd_record_next_def fnl efl fcl)
qed

lemma records_decode:
  assumes "buf file = b" "cdo \<le> e" "e < int (length b)" "int (length b) < 2 ^ 32"
    and "cd_records_ok b cdo e p ps"
  shows "decode_forward file p (int (length b) - p) (length ps) = (map (cd_entry b) ps, None)"
  using assms(5)
proof (induction ps arbitrary: p)
  case Nil
  show ?case by simp
next
  case (Cons q qs)
  from Cons.prems
  have q: "q = p" "cd_record_ok b cdo e q" "cd_records_ok b cdo e (cd_record_next b q) qs"
    by auto
  from record_decodes [OF assms(1) q(2) assms(2-4)] Cons.IH [OF q(3)] q(1)
  show ?case by simp
qed

lemma read_central_dir_values_ok:
  assumes "22 \<le> len"
    and "read_le_short (buf file) (eocd + 0x04) = Some dn"
    and "read_le_short (buf file) (eocd + 0x06) = Some dw"
    and "read_le_short (buf file) (eocd + 0x08) = Some ec"
    and "read_le_short (buf file) (eocd + 0x0a) = Some tec"
    and "read_le_int (buf file) (eocd + 0x0c) = Some cds"
    and "read_le_int (buf file) (eocd + 0x10) = Some cdo"
    and "read_le_short (buf file) (eocd + 0x14) = Some cl"
    and "22 + uint cl \<le> len"
  shows "\<exists>file1. read_central_dir_values file eocd len = (None, file1)
    \<and> buf file1 = buf file \<and> entries file1 = entries file
    \<and> disknum file1 = ucast dn \<and> diskWithCentralDir file1 = ucast dw
    \<and> entryCount file1 = ucast ec \<and> totalEntryCount file1 = ucast tec
    \<and> centralDirOffest file1 = cdo"
  using assms read_le_short_uint [OF assms(8)]
  by (simp add: read_central_dir_values_def Let_def EOCD_LEN_def)

text \<open>
  C5 (as amended). For every well-formed archive with \<open>N\<close> central-directory records, in
  which the signature of the end-of-central-directory record does not occur again at an
  offset behind the start of that record, the parse succeeds and the entry collection
  holds exactly \<open>N\<close> descriptors, those of the records: each one was put in front of the
  collection, so the collection is the reverse of the order in which the records are
  stored. This holds for every descriptor without entries that is handed over with the
  buffer, so every parse of the same buffer gives the same collection.
\<close>

theorem well_formed_archive_parsed:
  assumes wf: "well_formed_archive b e ps"
    and last: "\<forall>p. e < p \<and> p \<le> int (length b) - 4 \<longrightarrow> \<not> sig_at b p"
    and zf: "buf file = b" "entries file = []"
  shows "fst (read_central_dir file) = None
    \<and> length (entries (snd (read_central_dir file))) = length ps
    \<and> entries (snd (read_central_dir file)) = rev (map (cd_entry b) ps)"
proof -
  let ?len = "int (length b)"
  let ?cdo = "le32 b (e + 16)"
  from wf have l: "?len < 2 ^ 32" and e: "0 \<le> e" "e + 22 \<le> ?len"
    and sg: "le32 b e = 0x06054b50"
    and cl: "e + 22 + le16 b (e + 20) = ?len"
    and disk: "le16 b (e + 4) = 0" "le16 b (e + 6) = 0"
    and cnt: "le16 b (e + 8) = int (length ps)" "le16 b (e + 10) = int (length ps)"
    and cd: "?cdo + le32 b (e + 12) \<le> e"
    and recs: "cd_records_ok b ?cdo e ?cdo ps"
    by (simp_all add: well_formed_archive_def)
  have "sig_at b e"
    unfolding sig_at_def using e sg
    by (intro read_le_int_signature) (simp_all add: CD_SIGNATURE_def)
  moreover have "window_start b \<le> e"
    using cl le16_bounds(2) [of b "e + 20"] e by (simp add: window_start_def)
  ultimately have 1: "find_eocd (buf file) = Inr e"
    unfolding zf(1) using e last by (simp add: find_eocd_Inr_iff)
  obtain dn where dn: "read_le_short (buf file) (e + 0x04) = Some dn" "uint dn = le16 b (e + 4)"
    unfolding zf(1) using read_le_short_le16 [of "e + 4" b] e by auto
  obtain dw where dw: "read_le_short (buf file) (e + 0x06) = Some dw" "uint dw = le16 b (e + 6)"
    unfolding zf(1) using read_le_short_le16 [of "e + 6" b] e by auto
  obtain ec where ec: "read_le_short (buf file) (e + 0x08) = Some ec" "uint ec = le16 b (e + 8)"
    unfolding zf(1) using read_le_short_le16 [of "e + 8" b] e by auto
  obtain tec where tec: "read_le_short (buf file) (e + 0x0a) = Some tec"
      "uint tec = le16 b (e + 10)"
    unfolding zf(1) using read_le_short_le16 [of "e + 10" b] e by auto
  obtain cds where cds: "read_le_int (buf file) (e + 0x0c) = Some cds"
    unfolding zf(1) using read_le_int_le32 [of "e + 12" b] e by auto
  obtain cdo where cdo: "read_le_int (buf file) (e + 0x10) = Some cdo" "uint cdo = ?cdo"
    unfolding zf(1) using read_le_int_le32 [of "e + 16" b] e by auto
  obtain c where c: "read_le_short (buf file) (e + 0x14) = Some c" "uint c = le16 b (e + 20)"
    unfolding zf(1) using read_le_short_le16 [of "e + 20" b] e by auto
  have "22 \<le> int (length (buf file)) - e" "22 + uint c \<le> int (length (buf file)) - e"
    unfolding zf(1) using e cl c(2) by simp_all
  from read_central_dir_values_ok [OF this(1) dn(1) dw(1) ec(1) tec(1) cds cdo(1) c(1) this(2)]
  obtain file1 where
    2: "read_central_dir_values file e (int (length (buf file)) - e) = (None, file1)"
    and f1: "buf file1 = buf file" "disknum file1 = ucast dn"
      "diskWithCentralDir file1 = ucast dw" "entryCount file1 = ucast ec"
      "totalEntryCount file1 = ucast tec" "centralDirOffest file1 = cdo"
    by blast
  have "dn = 0" "dw = 0" "ec = tec"
    using dn(2) dw(2) ec(2) tec(2) disk cnt by (simp_all add: word_uint_eq_iff)
  with f1 have 3: "disknum file1 = 0" "diskWithCentralDir file1 = 0"
    "entryCount file1 = totalEntryCount file1" by simp_all
  have "uint (totalEntryCount file1) = int (length ps)"
    using read_le_short_uint [OF tec(1)] tec(2) cnt(2) f1(5) by simp
  then have n: "unat (totalEntryCount file1) = length ps"
    by (simp add: unat_eq_nat_uint del: nat_uint_eq)
  have "?cdo \<le> e" using cd le32_bounds(1) [of b "e + 12"] by linarith
  moreover have "e < ?len" using e by simp
  ultimately have "decode_forward file1 ?cdo (?len - ?cdo) (length ps)
      = (map (cd_entry b) ps, None)"
    using f1(1) zf(1) l recs by (intro records_decode [where e = e and cdo = "?cdo"]) simp_all
  then have 4: "decode_forward file1 (uint (centralDirOffest file1))
      (int (length (buf file)) - uint (centralDirOffest file1))
      (unat (totalEntryCount file1)) = (map (cd_entry b) ps, None)"
    by (simp add: f1(6) cdo(2) zf(1) n)
  from read_central_dir_entries [OF 1 2 3 4] zf(2) show ?thesis by simp
qed

theorem well_formed_archive_parsed_witness:
  "well_formed_archive two_entry_zip 187 [85, 136]
   \<and> fst (read_central_dir (zeroed_zipfile two_entry_zip)) = None
   \<and> length (entries (snd (read_central_dir (zeroed_zipfile two_entry_zip)))) = 2
   \<and> map data (entries (snd (read_central_dir (zeroed_zipfile two_entry_zip)))) = [75, 35]
   \<and> map fileName (entries (snd (read_central_dir (zeroed_zipfile two_entry_zip)))) = [182, 131]"
proof -
  have wf: "well_formed_archive two_entry_zip 187 [85, 136]" by code_simp
  have "find_eocd two_entry_zip = Inr 187" by code_simp
  then have last: "\<forall>p. 187 < p \<and> p \<le> int (length two_entry_zip) - 4 \<longrightarrow> \<not> sig_at two_entry_zip p"
    by (simp add: find_eocd_Inr_iff)
  have f: "buf (zeroed_zipfile two_entry_zip) = two_entry_zip"
    "entries (zeroed_zipfile two_entry_zip) = []"
    by (simp_all add: zeroed_zipfile_def)
  have d: "map data (rev (map (cd_entry two_entry_zip) [85, 136])) = [75, 35]"
    "map fileName (rev (map (cd_entry two_entry_zip) [85, 136])) = [182, 131]"
    by code_simp+
  note t = well_formed_archive_parsed [OF wf last f]
  from t have "fst (read_central_dir (zeroed_zipfile two_entry_zip)) = None" by (rule conjunct1)
  moreover from t have "length (entries (snd (read_central_dir (zeroed_zipfile two_entry_zip)))) = 2"
    by simp
  moreover from t d
  have "map data (entries (snd (read_central_dir (zeroed_zipfile two_entry_zip)))) = [75, 35]"
    "map fileName (entries (snd (read_central_dir (zeroed_zipfile two_entry_zip)))) = [182, 131]"
    by simp_all
  ultimately show ?thesis using wf by blast
qed

theorem signature_in_comment_counterexample:
  "well_formed_archive sig_in_comment_zip 0 []
   \<and> le16 sig_in_comment_zip (0 + 10) = 0
   \<and> fst (read_central_dir (zeroed_zipfile sig_in_comment_zip)) = Some Truncated"
  by code_simp

end
